theory Spec2Isabelle
  imports Complex_Main
begin

section \<open>JavaScript helpers\<close>

text \<open>
  A JavaScript string is represented by an Isabelle string, its UTF-8 encoding:
  concatenation, equality and emptiness are those of the JavaScript strings. JavaScript
  numbers are rationals with exact arithmetic; \<^verbatim>\<open>Date.now()\<close> and \<^verbatim>\<open>Math.random()\<close> are inputs
  of the model.

  The built-ins \<^verbatim>\<open>String.prototype.toLowerCase\<close> and \<^verbatim>\<open>s.replace(/\s+/g, sep)\<close> belong to the
  JavaScript runtime, not to the repository. The model takes them as a parameter \<open>rt\<close> of
  every function that calls them, so what is proved for an arbitrary \<open>rt\<close> holds of
  JavaScript's own functions on all strings.
\<close>

record runtime =
  toLowerCase :: "string \<Rightarrow> string"
  replaceWhitespace :: "string \<Rightarrow> string \<Rightarrow> string"

text \<open>
  The examples run on ASCII strings, with the instance \<open>ascii\<close>: it maps \<^verbatim>\<open>A\<close>..\<^verbatim>\<open>Z\<close> to
  \<^verbatim>\<open>a\<close>..\<^verbatim>\<open>z\<close> and replaces every maximal run of the six ASCII white-space characters by
  \<open>sep\<close>. On ASCII strings JavaScript does the same.
\<close>

definition asciiToLowerChar :: "char \<Rightarrow> char" where
  "asciiToLowerChar c =
     (case map_of (zip ''ABCDEFGHIJKLMNOPQRSTUVWXYZ'' ''abcdefghijklmnopqrstuvwxyz'') c of
        Some l \<Rightarrow> l
      | None \<Rightarrow> c)"

definition asciiToLowerCase :: "string \<Rightarrow> string" where
  "asciiToLowerCase s = map asciiToLowerChar s"

definition asciiSpace :: "char \<Rightarrow> bool" where
  "asciiSpace c = (c \<in> set [CHR 0x09, CHR 0x0A, CHR 0x0B, CHR 0x0C, CHR 0x0D, CHR '' ''])"

function asciiReplaceWhitespace :: "string \<Rightarrow> string \<Rightarrow> string" where
  "asciiReplaceWhitespace sep [] = []"
| "asciiReplaceWhitespace sep (c # cs) =
     (if asciiSpace c then sep @ asciiReplaceWhitespace sep (dropWhile asciiSpace cs)
      else c # asciiReplaceWhitespace sep cs)"
  by pat_completeness auto
termination
  by (relation "measure (\<lambda>(sep, s). length s)")
     (auto simp: length_dropWhile_le less_Suc_eq_le)

definition ascii :: runtime where
  "ascii = \<lparr>toLowerCase = asciiToLowerCase, replaceWhitespace = asciiReplaceWhitespace\<rparr>"

text \<open>
  What a JavaScript exception is to the model: only the TypeError of a call of something
  that is not a function occurs.
\<close>

datatype error = TypeError

text \<open>\<^verbatim>\<open>Array.prototype.findIndex\<close>; \<open>None\<close> stands for the result \<^verbatim>\<open>-1\<close>.\<close>

fun findIndex :: "('a \<Rightarrow> bool) \<Rightarrow> 'a list \<Rightarrow> nat option" where
  "findIndex P [] = None"
| "findIndex P (x # xs) =
     (if P x then Some 0 else map_option Suc (findIndex P xs))"

text \<open>\<^verbatim>\<open>findIndex\<close> with a predicate that may throw: the exception leaves the search.\<close>

fun findIndexThrowing :: "('a \<Rightarrow> error + bool) \<Rightarrow> 'a list \<Rightarrow> error + nat option" where
  "findIndexThrowing P [] = Inr None"
| "findIndexThrowing P (x # xs) =
     (case P x of
        Inl e \<Rightarrow> Inl e
      | Inr found \<Rightarrow>
          if found then Inr (Some 0)
          else (case findIndexThrowing P xs of
                  Inl e \<Rightarrow> Inl e
                | Inr index \<Rightarrow> Inr (map_option Suc index)))"

text \<open>\<^verbatim>\<open>Math.round\<close> rounds a half upwards.\<close>

definition mathRound :: "rat \<Rightarrow> int" where
  "mathRound x = \<lfloor>x + 1 / 2\<rfloor>"

text \<open>\<^verbatim>\<open>a || b\<close> on an optional string and on an optional number: absent, \<^verbatim>\<open>''\<close> and \<^verbatim>\<open>0\<close> are falsy.\<close>

definition orString :: "string option \<Rightarrow> string \<Rightarrow> string" where
  "orString a b = (case a of None \<Rightarrow> b | Some s \<Rightarrow> if s = [] then b else s)"

definition orNumber :: "rat option \<Rightarrow> rat \<Rightarrow> rat" where
  "orNumber a b = (case a of None \<Rightarrow> b | Some x \<Rightarrow> if x = 0 then b else x)"

section \<open>The poller (progressTracker.ts)\<close>

record ProgressPhase =
  name :: string
  description :: string
  estimatedDuration :: nat

definition ANALYSIS_PHASES :: "ProgressPhase list" where
  "ANALYSIS_PHASES =
    [\<lparr>name = ''Initialization'', description = ''Setting up analysis environment'',
      estimatedDuration = 5\<rparr>,
     \<lparr>name = ''Data Collection'', description = ''Gathering business information'',
      estimatedDuration = 15\<rparr>,
     \<lparr>name = ''Market Research'', description = ''Analyzing market trends and competitors'',
      estimatedDuration = 30\<rparr>,
     \<lparr>name = ''Opportunity Analysis'', description = ''Identifying growth opportunities'',
      estimatedDuration = 25\<rparr>,
     \<lparr>name = ''Report Generation'', description = ''Creating comprehensive report'',
      estimatedDuration = 20\<rparr>,
     \<lparr>name = ''Finalization'', description = ''Preparing final analysis'',
      estimatedDuration = 5\<rparr>]"

text \<open>
  The body of the progress endpoint's answer, \<^verbatim>\<open>response.data\<close>: an optional \<^verbatim>\<open>status\<close> and an
  optional \<^verbatim>\<open>progress\<close> object whose fields may each be missing (\<open>None\<close> is \<^verbatim>\<open>undefined\<close> or
  \<^verbatim>\<open>null\<close>; a falsy \<^verbatim>\<open>progress\<close> is \<open>None\<close>, a truthy one that is not an object has no fields).
  A request settles as \<open>Rejected\<close> (network failure or error status: \<^verbatim>\<open>axios.get\<close> throws) or
  as \<open>Resolved\<close> with its body, \<open>None\<close> being the body \<^verbatim>\<open>null\<close>, on which \<^verbatim>\<open>data.status\<close> throws
  a TypeError.

  \<^verbatim>\<open>current_phase\<close> is a JSON value of any kind, because the code calls a string method on
  it: \<open>JObject\<close> stands for every object and array. The other fields only go through
  \<^verbatim>\<open>||\<close>, \<^verbatim>\<open>Math.round\<close> and arithmetic, which do not throw; they have the JSON types that the
  interface \<^verbatim>\<open>ProgressUpdate\<close> declares for them.
\<close>

datatype jsvalue = JString string | JNumber rat | JBoolean bool | JObject

record progress_payload =
  current_phase :: "jsvalue option"
  percentage :: "rat option"
  current_task :: "string option"
  estimated_time_remaining :: "rat option"
  elapsed_time :: "rat option"

record response_data =
  status :: "string option"
  progress :: "progress_payload option"

datatype response = Rejected | Resolved "response_data option"

record ProgressUpdate =
  sessionId :: string
  phase :: string
  percentage :: int
  currentTask :: string
  estimatedTimeRemaining :: rat
  elapsedTime :: rat
  totalPhases :: nat
  currentPhase :: nat

text \<open>
  \<^verbatim>\<open>phaseName?.toLowerCase()\<close>: \<^verbatim>\<open>undefined\<close> for an absent name, the lower-cased string for a
  string, a TypeError for any other value (it has no method \<^verbatim>\<open>toLowerCase\<close>).
\<close>

definition optionalToLowerCase :: "runtime \<Rightarrow> jsvalue option \<Rightarrow> error + string option" where
  "optionalToLowerCase rt phaseName =
     (case phaseName of
        None \<Rightarrow> Inr None
      | Some (JString s) \<Rightarrow> Inr (Some (toLowerCase rt s))
      | Some _ \<Rightarrow> Inl TypeError)"

definition getCurrentPhaseIndex :: "runtime \<Rightarrow> jsvalue option \<Rightarrow> error + nat" where
  "getCurrentPhaseIndex rt phaseName =
     (case findIndexThrowing
             (\<lambda>phase. case optionalToLowerCase rt phaseName of
                         Inl e \<Rightarrow> Inl e
                       | Inr lowered \<Rightarrow> Inr (Some (toLowerCase rt (name phase)) = lowered))
             ANALYSIS_PHASES of
        Inl e \<Rightarrow> Inl e
      | Inr (Some index) \<Rightarrow> Inr (index + 1)
      | Inr None \<Rightarrow> Inr 1)"

text \<open>
  The event loop as the tracker sees it, and the tracker's own fields: the live interval
  timers, the next handle the runtime hands out (handles are positive), the number of
  \<^verbatim>\<open>axios.get\<close> requests in flight, \<^verbatim>\<open>isTracking\<close> and \<^verbatim>\<open>intervalId\<close>. The callbacks given to
  \<^verbatim>\<open>startTracking\<close> are state transformers on any extension of this record.
\<close>

record loop =
  timers :: "nat set"
  nextId :: nat
  pending :: nat
  isTracking :: bool
  intervalId :: "nat option"

definition setInterval :: "'a loop_scheme \<Rightarrow> nat \<times> 'a loop_scheme" where
  "setInterval w = (nextId w, w\<lparr>timers := insert (nextId w) (timers w), nextId := nextId w + 1\<rparr>)"

definition clearInterval :: "nat \<Rightarrow> 'a loop_scheme \<Rightarrow> 'a loop_scheme" where
  "clearInterval h w = w\<lparr>timers := timers w - {h}\<rparr>"

text \<open>\<^verbatim>\<open>fetchProgress\<close> up to its \<^verbatim>\<open>await\<close>: the guard on \<^verbatim>\<open>isTracking\<close>, then the request.\<close>

definition fetchProgress_request :: "'a loop_scheme \<Rightarrow> 'a loop_scheme" where
  "fetchProgress_request w = (if \<not> isTracking w then w else w\<lparr>pending := pending w + 1\<rparr>)"

definition stopTracking :: "'a loop_scheme \<Rightarrow> 'a loop_scheme" where
  "stopTracking w =
     (let w1 = w\<lparr>isTracking := False\<rparr>
      in case intervalId w1 of
           Some h \<Rightarrow> if h \<noteq> 0 then (clearInterval h w1)\<lparr>intervalId := None\<rparr> else w1
         | None \<Rightarrow> w1)"

definition startTracking :: "'a loop_scheme \<Rightarrow> 'a loop_scheme" where
  "startTracking w =
     (let w1 = w\<lparr>isTracking := True\<rparr>;
          (h, w2) = setInterval w1;
          w3 = w2\<lparr>intervalId := Some h\<rparr>
      in fetchProgress_request w3)"

text \<open>
  The object literal \<^verbatim>\<open>progressUpdate\<close> of \<^verbatim>\<open>fetchProgress\<close>. Its last field can throw; the
  fields before it have no effect. When it does not throw, \<^verbatim>\<open>current_phase\<close> is absent or a
  string, so \<^verbatim>\<open>current_phase || 'Unknown'\<close> is a string.
\<close>

definition progressUpdate :: "runtime \<Rightarrow> string \<Rightarrow> progress_payload \<Rightarrow> error + ProgressUpdate" where
  "progressUpdate rt sid p =
     (case getCurrentPhaseIndex rt (current_phase p) of
        Inl e \<Rightarrow> Inl e
      | Inr index \<Rightarrow>
          Inr \<lparr>sessionId = sid,
               phase = (case current_phase p of
                          Some (JString s) \<Rightarrow> orString (Some s) ''Unknown''
                        | _ \<Rightarrow> ''Unknown''),
               percentage = mathRound (orNumber (progress_payload.percentage p) 0),
               currentTask = orString (current_task p) ''Processing...'',
               estimatedTimeRemaining = orNumber (estimated_time_remaining p) 0,
               elapsedTime = orNumber (elapsed_time p) 0,
               totalPhases = length ANALYSIS_PHASES,
               currentPhase = index\<rparr>)"

text \<open>
  \<^verbatim>\<open>fetchProgress\<close> after its \<^verbatim>\<open>await\<close>, when the request has settled as \<open>r\<close>: the \<^verbatim>\<open>try\<close> body
  and the \<^verbatim>\<open>catch\<close>, which every exception of the body reaches. \<^verbatim>\<open>isTracking\<close> is not read
  here.
\<close>

definition fetchProgress_response ::
  "runtime \<Rightarrow> string \<Rightarrow> (ProgressUpdate \<Rightarrow> 'a loop_scheme \<Rightarrow> 'a loop_scheme) \<Rightarrow>
   ('a loop_scheme \<Rightarrow> 'a loop_scheme) \<Rightarrow> response \<Rightarrow> 'a loop_scheme \<Rightarrow> 'a loop_scheme" where
  "fetchProgress_response rt sid progressCallback errorCallback r w =
     (case r of
        Rejected \<Rightarrow> errorCallback w
      | Resolved None \<Rightarrow> errorCallback w
      | Resolved (Some d) \<Rightarrow>
          (case progress d of
             Some p \<Rightarrow>
               if status d = Some ''success'' then
                 (case progressUpdate rt sid p of
                    Inl e \<Rightarrow> errorCallback w
                  | Inr u \<Rightarrow>
                      (let w1 = progressCallback u w
                       in if 100 \<le> ProgressUpdate.percentage u then stopTracking w1 else w1))
               else w
           | None \<Rightarrow> w))"

text \<open>
  What can happen to a tracker: its interval fires, one of its requests settles, or its
  owner calls \<^verbatim>\<open>stopTracking\<close>. A step is \<open>None\<close> when the event cannot occur in the state
  (the timer is not live, no request is in flight).
\<close>

datatype tracker_event = TimerTick | Settled response | StopTracking

definition trackerStep ::
  "runtime \<Rightarrow> string \<Rightarrow> (ProgressUpdate \<Rightarrow> 'a loop_scheme \<Rightarrow> 'a loop_scheme) \<Rightarrow>
   ('a loop_scheme \<Rightarrow> 'a loop_scheme) \<Rightarrow> tracker_event \<Rightarrow> 'a loop_scheme \<Rightarrow>
   'a loop_scheme option" where
  "trackerStep rt sid progressCallback errorCallback e w =
     (case e of
        TimerTick \<Rightarrow>
          (case intervalId w of
             Some h \<Rightarrow> if h \<in> timers w then Some (fetchProgress_request w) else None
           | None \<Rightarrow> None)
      | Settled r \<Rightarrow>
          if 0 < pending w
          then Some (fetchProgress_response rt sid progressCallback errorCallback r
                       (w\<lparr>pending := pending w - 1\<rparr>))
          else None
      | StopTracking \<Rightarrow> Some (stopTracking w))"

text \<open>A tracker on its own, with callbacks that only record that they were called.\<close>

datatype tracker_call = ProgressCallback ProgressUpdate | ErrorCallback

record probe = loop +
  calls :: "tracker_call list"

definition recordProgress :: "ProgressUpdate \<Rightarrow> probe \<Rightarrow> probe" where
  "recordProgress u w = w\<lparr>calls := calls w @ [ProgressCallback u]\<rparr>"

definition recordError :: "probe \<Rightarrow> probe" where
  "recordError w = w\<lparr>calls := calls w @ [ErrorCallback]\<rparr>"

definition newProbe :: probe where
  "newProbe = \<lparr>timers = {}, nextId = 1, pending = 0, isTracking = False, intervalId = None,
               calls = []\<rparr>"

fun probeRun :: "runtime \<Rightarrow> string \<Rightarrow> tracker_event list \<Rightarrow> probe \<Rightarrow> probe option" where
  "probeRun rt sid [] w = Some w"
| "probeRun rt sid (e # es) w =
     (case trackerStep rt sid recordProgress recordError e w of
        None \<Rightarrow> None
      | Some w1 \<Rightarrow> probeRun rt sid es w1)"

section \<open>The coordinator (generateReportStreamWithProgress)\<close>

text \<open>
  An event handed to the caller's \<^verbatim>\<open>onProgress\<close>. The fields that only format the clock
  (\<^verbatim>\<open>eta_formatted\<close>, \<^verbatim>\<open>timestamp\<close>, \<^verbatim>\<open>details\<close> and the like) are left out; no branch reads them.
\<close>

record StreamProgressEvent =
  step :: string
  message :: string
  progress :: int
  phase :: string

datatype call = OnProgress StreamProgressEvent | OnComplete

text \<open>Which of the optional callbacks the caller passed.\<close>

record callbacks =
  onProgress :: bool
  onComplete :: bool

text \<open>The variables \<^verbatim>\<open>currentProgress\<close> and \<^verbatim>\<open>phaseIndex\<close> closed over by one fallback interval.\<close>

record sim =
  currentProgress :: rat
  phaseIndex :: nat

text \<open>
  The state of one call of \<^verbatim>\<open>generateReportStreamWithProgress\<close>: the tracker and the event
  loop, the variable \<^verbatim>\<open>fallbackInterval\<close>, the closure of every fallback interval created so
  far (by handle), whether the 5000 ms timeout is still to fire, and the calls made to the
  caller's callbacks, oldest first.
\<close>

record session = loop +
  fallbackInterval :: "nat option"
  sims :: "nat \<Rightarrow> sim option"
  graceTimer :: bool
  emitted :: "call list"

definition emit :: "call \<Rightarrow> session \<Rightarrow> session" where
  "emit c s = s\<lparr>emitted := emitted s @ [c]\<rparr>"

text \<open>\<^verbatim>\<open>s.toLowerCase().replace(/\s+/g, '_')\<close>\<close>

definition snake :: "runtime \<Rightarrow> string \<Rightarrow> string" where
  "snake rt s = replaceWhitespace rt ''_'' (toLowerCase rt s)"

text \<open>The first callback given to \<^verbatim>\<open>startTracking\<close>.\<close>

definition progressHandler ::
  "runtime \<Rightarrow> callbacks \<Rightarrow> ProgressUpdate \<Rightarrow> session \<Rightarrow> session" where
  "progressHandler rt cb u s =
     (let s1 = (if onProgress cb
                then emit (OnProgress \<lparr>step = snake rt (ProgressUpdate.phase u),
                                       message = currentTask u,
                                       progress = ProgressUpdate.percentage u,
                                       phase = snake rt (ProgressUpdate.phase u)\<rparr>) s
                else s)
      in if 100 \<le> ProgressUpdate.percentage u \<and> onComplete cb then emit OnComplete s1 else s1)"

text \<open>\<^verbatim>\<open>if (fallbackInterval) clearInterval(fallbackInterval)\<close>\<close>

definition clearFallback :: "session \<Rightarrow> session" where
  "clearFallback s =
     (case fallbackInterval s of
        Some f \<Rightarrow> if f \<noteq> 0 then clearInterval f s else s
      | None \<Rightarrow> s)"

text \<open>
  The callback of a fallback interval, run on the closure of handle \<open>h\<close>, with \<open>u\<close> the value
  \<^verbatim>\<open>Math.random()\<close> returns in it.
\<close>

definition fallbackTick :: "runtime \<Rightarrow> callbacks \<Rightarrow> nat \<Rightarrow> rat \<Rightarrow> session \<Rightarrow> session" where
  "fallbackTick rt cb h u s =
     (case sims s h of
        None \<Rightarrow> s
      | Some c \<Rightarrow>
          if length ANALYSIS_PHASES \<le> phaseIndex c then clearFallback s
          else
            (let phase = ANALYSIS_PHASES ! phaseIndex c;
                 currentProgress1 = currentProgress c + (u * 3 + 1);
                 s1 = (if onProgress cb
                       then emit (OnProgress \<lparr>step = snake rt (name phase),
                                              message = description phase,
                                              progress = min (mathRound currentProgress1) 100,
                                              phase = snake rt (name phase)\<rparr>) s
                       else s);
                 phaseIndex1 =
                   (if of_nat (phaseIndex c + 1) * (100 / of_nat (length ANALYSIS_PHASES))
                         \<le> currentProgress1
                    then phaseIndex c + 1 else phaseIndex c);
                 s2 = s1\<lparr>sims := (sims s1)
                          (h \<mapsto> \<lparr>currentProgress = currentProgress1, phaseIndex = phaseIndex1\<rparr>)\<rparr>
             in if length ANALYSIS_PHASES \<le> phaseIndex1 \<or> 100 \<le> currentProgress1
                then (let s3 = clearFallback s2
                      in if onComplete cb then emit OnComplete s3 else s3)
                else s2))"

definition startFallbackProgress :: "session \<Rightarrow> session" where
  "startFallbackProgress s =
     (let (h, s1) = setInterval s
      in s1\<lparr>fallbackInterval := Some h,
            sims := (sims s1)(h \<mapsto> \<lparr>currentProgress = 0, phaseIndex = 0\<rparr>)\<rparr>)"

text \<open>The second callback given to \<^verbatim>\<open>startTracking\<close>.\<close>

definition errorHandler :: "session \<Rightarrow> session" where
  "errorHandler s = startFallbackProgress s"

text \<open>
  The callback of \<^verbatim>\<open>setTimeout(..., 5000)\<close>; \<open>progressTracker\<close> is the truthiness of the
  variable, which holds the tracker object from the start.
\<close>

definition graceTimeout :: "session \<Rightarrow> session" where
  "graceTimeout s =
     (let progressTracker = True
      in if \<not> progressTracker \<or> progressTracker then startFallbackProgress s else s)"

text \<open>
  The synchronous body of \<^verbatim>\<open>generateReportStreamWithProgress\<close>: the "connected" event, the
  tracker started (its interval and its first request), the timeout armed. The analysis
  request itself is fire-and-forget and only logs.
\<close>

definition generateReportStreamWithProgress :: "callbacks \<Rightarrow> session" where
  "generateReportStreamWithProgress cb =
     (let s0 = \<lparr>timers = {}, nextId = 1, pending = 0, isTracking = False, intervalId = None,
                fallbackInterval = None, sims = Map.empty, graceTimer = False, emitted = []\<rparr>;
          s1 = (if onProgress cb
                then emit (OnProgress \<lparr>step = ''connected'',
                                       message = [CHR 0xF0, CHR 0x9F, CHR 0x9A, CHR 0x80] @
                                                 '' Connected to OptiGap Analysis Engine'',
                                       progress = 0,
                                       phase = ''initialization''\<rparr>) s0
                else s0);
          s2 = startTracking s1
      in s2\<lparr>graceTimer := True\<rparr>)"

text \<open>
  The events of a session: those of its tracker (nothing in this function calls
  \<^verbatim>\<open>stopTracking\<close> once the body has returned), a fallback interval firing with its random
  number, and the timeout. The caller's callbacks are taken not to throw. Time is not
  measured: a trace lists the events in the order in which they happen. Handles are
  counted for intervals only; the handle of the timeout is never used.
\<close>

datatype event = Tracker tracker_event | FallbackTimer nat rat | GraceTimeout

definition sessionStep ::
  "runtime \<Rightarrow> string \<Rightarrow> callbacks \<Rightarrow> event \<Rightarrow> session \<Rightarrow> session option" where
  "sessionStep rt sid cb e s =
     (case e of
        Tracker StopTracking \<Rightarrow> None
      | Tracker t \<Rightarrow> trackerStep rt sid (progressHandler rt cb) errorHandler t s
      | FallbackTimer h u \<Rightarrow>
          if h \<in> timers s \<and> sims s h \<noteq> None \<and> 0 \<le> u \<and> u < 1
          then Some (fallbackTick rt cb h u s) else None
      | GraceTimeout \<Rightarrow>
          if graceTimer s then Some (graceTimeout (s\<lparr>graceTimer := False\<rparr>)) else None)"

fun sessionRun ::
  "runtime \<Rightarrow> string \<Rightarrow> callbacks \<Rightarrow> event list \<Rightarrow> session \<Rightarrow> session option" where
  "sessionRun rt sid cb [] s = Some s"
| "sessionRun rt sid cb (e # es) s =
     (case sessionStep rt sid cb e s of
        None \<Rightarrow> None
      | Some s1 \<Rightarrow> sessionRun rt sid cb es s1)"

text \<open>The percentages handed to \<^verbatim>\<open>onProgress\<close>, and the number of \<^verbatim>\<open>onComplete\<close> calls.\<close>

fun percentages :: "call list \<Rightarrow> int list" where
  "percentages [] = []"
| "percentages (OnProgress ev # cs) = progress ev # percentages cs"
| "percentages (OnComplete # cs) = percentages cs"

fun completions :: "call list \<Rightarrow> nat" where
  "completions [] = 0"
| "completions (OnProgress ev # cs) = completions cs"
| "completions (OnComplete # cs) = Suc (completions cs)"


text \<open>
  The closure variables after a tick that found a phase: \<^verbatim>\<open>currentProgress\<close> grown by
  \<^verbatim>\<open>Math.random() * 3 + 1\<close>, \<^verbatim>\<open>phaseIndex\<close> incremented when the next boundary is reached.
\<close>

definition advance :: "rat \<Rightarrow> sim \<Rightarrow> sim" where
  "advance u c =
     \<lparr>currentProgress = currentProgress c + (u * 3 + 1),
      phaseIndex =
        (if of_nat (phaseIndex c + 1) * (100 / of_nat (length ANALYSIS_PHASES))
              \<le> currentProgress c + (u * 3 + 1)
         then phaseIndex c + 1 else phaseIndex c)\<rparr>"

text \<open>Whether the tracker's interval is live, and the live fallback intervals.\<close>

definition pollerTimerLive :: "session \<Rightarrow> bool" where
  "pollerTimerLive s = (case intervalId s of Some h \<Rightarrow> h \<in> timers s | None \<Rightarrow> False)"

definition simulatorTimers :: "session \<Rightarrow> nat set" where
  "simulatorTimers s = {h \<in> timers s. sims s h \<noteq> None}"

text \<open>
  Whether a settled request ends in the \<^verbatim>\<open>catch\<close> of \<^verbatim>\<open>fetchProgress\<close>, that is, signals
  \<^verbatim>\<open>onError\<close>: the request is rejected, the body is null, or the guarded branch is entered
  with a \<^verbatim>\<open>current_phase\<close> that is neither absent nor a string.
\<close>

definition signalsError :: "response \<Rightarrow> bool" where
  "signalsError r =
     (case r of
        Rejected \<Rightarrow> True
      | Resolved None \<Rightarrow> True
      | Resolved (Some d) \<Rightarrow>
          (case response_data.progress d of
             Some p \<Rightarrow>
               status d = Some ''success'' \<and>
               (case current_phase p of
                  None \<Rightarrow> False
                | Some (JString s) \<Rightarrow> False
                | Some _ \<Rightarrow> True)
           | None \<Rightarrow> False))"

definition errorEvent :: "event \<Rightarrow> bool" where
  "errorEvent e = (case e of Tracker (Settled r) \<Rightarrow> signalsError r | _ \<Rightarrow> False)"

text \<open>
  Whether a settled request makes the tracker relay an update of 100 percent or more, and
  the number of such requests in a trace.
\<close>

definition relaysCompletion :: "response \<Rightarrow> bool" where
  "relaysCompletion r =
     (case r of
        Rejected \<Rightarrow> False
      | Resolved None \<Rightarrow> False
      | Resolved (Some d) \<Rightarrow>
          (case response_data.progress d of
             Some p \<Rightarrow>
               status d = Some ''success'' \<and> \<not> signalsError r \<and>
               100 \<le> mathRound (orNumber (progress_payload.percentage p) 0)
           | None \<Rightarrow> False))"

fun pollerCompletions :: "event list \<Rightarrow> nat" where
  "pollerCompletions [] = 0"
| "pollerCompletions (Tracker (Settled r) # es) =
     (if relaysCompletion r then 1 else 0) + pollerCompletions es"
| "pollerCompletions (e # es) = pollerCompletions es"

text \<open>
  What holds of every state a session reaches: the tracker's interval has handle 1 and is
  live exactly while \<^verbatim>\<open>isTracking\<close> is set, the fallback closures have later handles, and
  every live timer is the tracker's or a fallback's.
\<close>

definition sessionInv :: "session \<Rightarrow> bool" where
  "sessionInv s =
     (intervalId s = (if isTracking s then Some 1 else None) \<and>
      (1 \<in> timers s) = isTracking s \<and>
      2 \<le> nextId s \<and>
      (\<forall>h. sims s h \<noteq> None \<longrightarrow> 2 \<le> h \<and> h < nextId s) \<and>
      (\<forall>h\<in>timers s. h = 1 \<or> sims s h \<noteq> None) \<and>
      (\<forall>f. fallbackInterval s = Some f \<longrightarrow> sims s f \<noteq> None))"

section \<open>Chart reconciliation (ReportComponent.tsx, handleSendMessage)\<close>

text \<open>
  The chart branch of \<^verbatim>\<open>handleSendMessage\<close> merges the charts of a chatbot response into the
  \<^verbatim>\<open>dynamicCharts\<close> state. The colour fields of a chart are left out; nothing reads them here.
\<close>

datatype chart_type =
  Line | Bar | Pie | Doughnut | Area | Scatter | HorizontalBar | PolarArea | Radar

fun type_string :: "chart_type \<Rightarrow> string" where
  "type_string Line = ''line''"
| "type_string Bar = ''bar''"
| "type_string Pie = ''pie''"
| "type_string Doughnut = ''doughnut''"
| "type_string Area = ''area''"
| "type_string Scatter = ''scatter''"
| "type_string HorizontalBar = ''horizontalBar''"
| "type_string PolarArea = ''polarArea''"
| "type_string Radar = ''radar''"

record chart =
  title :: string
  type :: chart_type
  labels :: "string list"
  data :: "rat list"
  description :: "string option"
  insights :: "string list option"
  id' :: "string option"
  createdAt :: "nat option"
  updatedAt :: "nat option"

text \<open>\<^verbatim>\<open>`${chart.title}-${chart.type}`.toLowerCase().replace(/\s+/g, '-')\<close>\<close>

definition chartId :: "runtime \<Rightarrow> chart \<Rightarrow> string" where
  "chartId rt c =
     replaceWhitespace rt ''-'' (toLowerCase rt (title c @ ''-'' @ type_string (type c)))"

text \<open>
  The three tests of the \<^verbatim>\<open>findIndex\<close> predicate, in the order the source writes them. The
  \<^verbatim>\<open>JSON.stringify\<close> images of two arrays of strings are equal exactly when the arrays are.
\<close>

definition idMatch :: "runtime \<Rightarrow> chart \<Rightarrow> chart \<Rightarrow> bool" where
  "idMatch rt newChart chart = (chartId rt chart = chartId rt newChart)"

definition titleMatch :: "runtime \<Rightarrow> chart \<Rightarrow> chart \<Rightarrow> bool" where
  "titleMatch rt newChart chart =
     (toLowerCase rt (title chart) = toLowerCase rt (title newChart))"

definition structureMatch :: "chart \<Rightarrow> chart \<Rightarrow> bool" where
  "structureMatch newChart chart =
     (type chart = type newChart \<and>
      (let labelsMatch = (labels chart = labels newChart);
           similarDataLength = (length (data chart) = length (data newChart))
       in labelsMatch \<or> similarDataLength))"

definition chartMatches :: "runtime \<Rightarrow> chart \<Rightarrow> chart \<Rightarrow> bool" where
  "chartMatches rt newChart chart =
     (if idMatch rt newChart chart then True
      else if titleMatch rt newChart chart then True
      else if structureMatch newChart chart then True
      else False)"

record merge_state =
  updatedCharts :: "chart list"
  chartsUpdated :: nat
  chartsAdded :: nat

text \<open>The copy a candidate is stored as when it replaces an entry, and when it is appended.\<close>

definition replacement :: "runtime \<Rightarrow> nat \<Rightarrow> chart \<Rightarrow> chart" where
  "replacement rt now newChart =
     newChart\<lparr>id' := Some (chartId rt newChart), updatedAt := Some now\<rparr>"

definition addition :: "runtime \<Rightarrow> nat \<Rightarrow> chart \<Rightarrow> chart" where
  "addition rt now newChart =
     newChart\<lparr>id' := Some (chartId rt newChart), createdAt := Some now\<rparr>"

text \<open>The body of \<^verbatim>\<open>response.charts.forEach\<close> for one candidate, \<open>now\<close> being \<^verbatim>\<open>Date.now()\<close>.\<close>

definition forEachBody :: "runtime \<Rightarrow> nat \<Rightarrow> chart \<Rightarrow> merge_state \<Rightarrow> merge_state" where
  "forEachBody rt now newChart st =
     (case findIndex (chartMatches rt newChart) (updatedCharts st) of
        Some existingIndex \<Rightarrow>
          st\<lparr>updatedCharts := (updatedCharts st)[existingIndex := replacement rt now newChart],
             chartsUpdated := chartsUpdated st + 1\<rparr>
      | None \<Rightarrow>
          st\<lparr>updatedCharts := updatedCharts st @ [addition rt now newChart],
             chartsAdded := chartsAdded st + 1\<rparr>)"

text \<open>
  The whole updater: \<^verbatim>\<open>updatedCharts = [...prev]\<close>, both counters at 0, then the candidates in
  order; each candidate comes with the clock value read while it is processed.
\<close>

fun forEachCharts :: "runtime \<Rightarrow> (nat \<times> chart) list \<Rightarrow> merge_state \<Rightarrow> merge_state" where
  "forEachCharts rt [] st = st"
| "forEachCharts rt ((now, newChart) # rest) st =
     forEachCharts rt rest (forEachBody rt now newChart st)"

definition mergeCharts :: "runtime \<Rightarrow> chart list \<Rightarrow> (nat \<times> chart) list \<Rightarrow> merge_state" where
  "mergeCharts rt prev candidates =
     forEachCharts rt candidates \<lparr>updatedCharts = prev, chartsUpdated = 0, chartsAdded = 0\<rparr>"

section \<open>Inputs used in the examples\<close>

definition bothCallbacks :: callbacks where
  "bothCallbacks = \<lparr>onProgress = True, onComplete = True\<rparr>"

definition successResponse :: "rat \<Rightarrow> response" where
  "successResponse p =
     Resolved (Some \<lparr>status = Some ''success'',
                     progress = Some \<lparr>current_phase = Some (JString ''Market Research''),
                                      percentage = Some p,
                                      current_task = Some ''Analyzing'',
                                      estimated_time_remaining = None,
                                      elapsed_time = None\<rparr>\<rparr>)"

text \<open>The first poll request fails.\<close>

definition firstPollFails :: "session option" where
  "firstPollFails =
     sessionRun ascii ''s1'' bothCallbacks [Tracker (Settled Rejected)]
       (generateReportStreamWithProgress bothCallbacks)"

text \<open>The first poll answers 30 percent; the poll of the first interval tick fails.\<close>

definition updateThenOneError :: "session option" where
  "updateThenOneError =
     sessionRun ascii ''s1'' bothCallbacks
       [Tracker (Settled (successResponse 30)), Tracker TimerTick, Tracker (Settled Rejected)]
       (generateReportStreamWithProgress bothCallbacks)"


text \<open>
  The first poll fails and starts the fallback interval 2; the next poll answers 100
  percent; the timeout starts the fallback interval 3; both intervals tick every two
  seconds until interval 2 reaches 100.
\<close>

definition errorThenBothComplete :: "session option" where
  "errorThenBothComplete =
     sessionRun ascii ''s1'' bothCallbacks
       [Tracker (Settled Rejected), Tracker TimerTick, Tracker (Settled (successResponse 100)),
        FallbackTimer 2 (99 / 100), FallbackTimer 2 (99 / 100), GraceTimeout,
        FallbackTimer 2 (99 / 100), FallbackTimer 3 (1 / 2),
        FallbackTimer 2 (99 / 100), FallbackTimer 3 (1 / 2),
        FallbackTimer 2 (99 / 100), FallbackTimer 3 (1 / 2),
        FallbackTimer 2 (99 / 100), FallbackTimer 3 (1 / 2),
        FallbackTimer 2 (99 / 100), FallbackTimer 3 (1 / 2),
        FallbackTimer 2 (99 / 100), FallbackTimer 3 (1 / 2),
        FallbackTimer 2 (99 / 100), FallbackTimer 3 (1 / 2),
        FallbackTimer 2 (99 / 100), FallbackTimer 3 (1 / 2),
        FallbackTimer 2 (99 / 100), FallbackTimer 3 (1 / 2),
        FallbackTimer 2 (99 / 100), FallbackTimer 3 (1 / 2),
        FallbackTimer 2 (99 / 100), FallbackTimer 3 (1 / 2),
        FallbackTimer 2 (99 / 100), FallbackTimer 3 (1 / 2),
        FallbackTimer 2 (99 / 100), FallbackTimer 3 (1 / 2),
        FallbackTimer 2 (99 / 100), FallbackTimer 3 (1 / 2),
        FallbackTimer 2 (99 / 100), FallbackTimer 3 (1 / 2),
        FallbackTimer 2 (99 / 100), FallbackTimer 3 (1 / 2),
        FallbackTimer 2 (99 / 100), FallbackTimer 3 (1 / 2),
        FallbackTimer 2 (99 / 100), FallbackTimer 3 (1 / 2),
        FallbackTimer 2 (99 / 100), FallbackTimer 3 (1 / 2),
        FallbackTimer 2 (99 / 100), FallbackTimer 3 (1 / 2),
        FallbackTimer 2 (99 / 100), FallbackTimer 3 (1 / 2),
        FallbackTimer 2 (99 / 100), FallbackTimer 3 (1 / 2),
        FallbackTimer 2 (99 / 100), FallbackTimer 3 (1 / 2),
        FallbackTimer 2 (99 / 100)]
       (generateReportStreamWithProgress bothCallbacks)"

text \<open>The first poll fails; the poll of the first interval tick answers 100 percent.\<close>

definition errorThenPollerCompletes :: "session option" where
  "errorThenPollerCompletes =
     sessionRun ascii ''s1'' bothCallbacks
       [Tracker (Settled Rejected), Tracker TimerTick, Tracker (Settled (successResponse 100))]
       (generateReportStreamWithProgress bothCallbacks)"

text \<open>A tracker is started and stopped at once; then its first request settles.\<close>

definition stoppedThenAnswered :: "probe option" where
  "stoppedThenAnswered =
     probeRun ascii ''s1'' [StopTracking, Settled (successResponse 42)] (startTracking newProbe)"

definition stoppedThenFailed :: "probe option" where
  "stoppedThenFailed =
     probeRun ascii ''s1'' [StopTracking, Settled Rejected] (startTracking newProbe)"

text \<open>Answers without a success status, and without a progress object.\<close>

definition errorStatusResponse :: response_data where
  "errorStatusResponse = \<lparr>status = Some ''error'', progress = None\<rparr>"

definition noProgressResponse :: response_data where
  "noProgressResponse = \<lparr>status = Some ''success'', progress = None\<rparr>"

text \<open>An answer with a success status whose \<^verbatim>\<open>current_phase\<close> is the number 3.\<close>

definition numericPhaseResponse :: response_data where
  "numericPhaseResponse =
     \<lparr>status = Some ''success'',
      progress = Some \<lparr>current_phase = Some (JNumber 3), percentage = Some 42,
                       current_task = None, estimated_time_remaining = None,
                       elapsed_time = None\<rparr>\<rparr>"

text \<open>
  A tracker whose first request is answered without a success status and whose second
  request, sent at the first interval tick, is answered without a progress object.
\<close>

definition malformedAnswers :: "probe option" where
  "malformedAnswers =
     probeRun ascii ''s1''
       [Settled (Resolved (Some errorStatusResponse)), TimerTick,
        Settled (Resolved (Some noProgressResponse))]
       (startTracking newProbe)"

definition mkChart :: "string \<Rightarrow> chart_type \<Rightarrow> string list \<Rightarrow> rat list \<Rightarrow> chart" where
  "mkChart t ty ls ds =
     \<lparr>title = t, type = ty, labels = ls, data = ds, description = None, insights = None,
      id' = None, createdAt = None, updatedAt = None\<rparr>"

definition costsBar :: chart where
  "costsBar = mkChart ''Costs'' Bar [''Q1''] [1]"

definition revenueBar :: chart where
  "revenueBar = mkChart ''Revenue'' Bar [''Q1'', ''Q2''] [10, 20]"

definition revenueCandidate :: chart where
  "revenueCandidate = mkChart ''Revenue'' Bar [''Q3''] [5]"

text \<open>
  The collection after two chatbot answers, the first with the chart "Costs" and the second
  with the chart "Revenue", merged into the empty collection at the times 1 and 2.
\<close>

definition costsAndRevenue :: "chart list" where
  "costsAndRevenue = updatedCharts (mergeCharts ascii [] [(1, costsBar), (2, revenueBar)])"

definition profitLine :: chart where
  "profitLine = mkChart ''Profit'' Line [''Jan'', ''Feb''] [3, 4]"

definition salesLine :: chart where
  "salesLine = mkChart ''Sales'' Line [''North'', ''South'', ''West''] [1, 2, 3]"

definition salesCandidate :: chart where
  "salesCandidate = mkChart ''Sales'' Line [''North'', ''South''] [5, 6]"

text \<open>The collection after the answers "Profit" and "Sales", merged at the times 1 and 2.\<close>

definition profitAndSales :: "chart list" where
  "profitAndSales = updatedCharts (mergeCharts ascii [] [(1, profitLine), (2, salesLine)])"

definition growthLine :: chart where
  "growthLine = mkChart ''Growth'' Line [''A'', ''B'', ''C''] [1, 2, 3]"

definition growthRateCandidate :: chart where
  "growthRateCandidate = mkChart ''Growth Rate'' Bar [''A'', ''B'', ''C''] [4, 5, 6]"

definition costsBarThree :: chart where
  "costsBarThree = mkChart ''Costs'' Bar [''X'', ''Y'', ''Z''] [7, 8, 9]"

definition marginPie :: chart where
  "marginPie = mkChart ''Margin'' Pie [''A'', ''B''] [1, 2]"

section \<open>Facts about the helpers\<close>

lemma findIndex_None: "findIndex P xs = None \<longleftrightarrow> (\<forall>x\<in>set xs. \<not> P x)"
  by (induction xs) auto

lemma findIndex_Some:
  "findIndex P xs = Some i \<longleftrightarrow> i < length xs \<and> P (xs ! i) \<and> (\<forall>j<i. \<not> P (xs ! j))"
proof (induction xs arbitrary: i)
  case Nil
  then show ?case by simp
next
  case (Cons x xs)
  show ?case
  proof (cases "P x")
    case True
    then show ?thesis by (cases i) auto
  next
    case False
    show ?thesis
    proof (cases i)
      case 0
      with False show ?thesis by auto
    next
      case (Suc k)
      have "(\<forall>j<Suc k. \<not> P ((x # xs) ! j)) \<longleftrightarrow> (\<forall>j<k. \<not> P (xs ! j))"
        using False by (auto simp: less_Suc_eq_0_disj)
      with False Suc Cons.IH [of k] show ?thesis by auto
    qed
  qed
qed

lemma findIndexThrowing_total:
  "findIndexThrowing (\<lambda>x. Inr (P x)) xs = Inr (findIndex P xs)"
  by (induction xs) simp_all

lemma findIndexThrowing_throws:
  "xs \<noteq> [] \<Longrightarrow> findIndexThrowing (\<lambda>x. Inl e) xs = Inl e"
  by (cases xs) simp_all

section \<open>The counters of a merge\<close>

lemma forEachBody_counts:
  "chartsUpdated (forEachBody rt now c st) + chartsAdded (forEachBody rt now c st)
     = chartsUpdated st + chartsAdded st + 1"
  "length (updatedCharts (forEachBody rt now c st)) + chartsAdded st
     = length (updatedCharts st) + chartsAdded (forEachBody rt now c st)"
  by (auto simp: forEachBody_def split: option.splits)

lemma forEachCharts_counts:
  "chartsUpdated (forEachCharts rt cs st) + chartsAdded (forEachCharts rt cs st)
     = chartsUpdated st + chartsAdded st + length cs \<and>
   length (updatedCharts (forEachCharts rt cs st)) + chartsAdded st
     = length (updatedCharts st) + chartsAdded (forEachCharts rt cs st)"
proof (induction cs arbitrary: st)
  case Nil
  show ?case by simp
next
  case (Cons a cs)
  obtain now c where a: "a = (now, c)" by (cases a)
  from Cons.IH [of "forEachBody rt now c st"] forEachBody_counts [of rt now c st]
  show ?case unfolding a by simp
qed

text \<open>
  Claim C10. For every merge of a batch of candidates into an existing collection, each
  candidate adds one to exactly one of the two counters, so \<open>chartsUpdated + chartsAdded\<close> is
  the number of candidates, and the resulting collection is as long as the existing one
  plus \<open>chartsAdded\<close>.
\<close>

theorem merge_counts_candidates:
  "((chartsUpdated (forEachBody rt now c st) = chartsUpdated st + 1 \<and>
     chartsAdded (forEachBody rt now c st) = chartsAdded st) \<or>
    (chartsUpdated (forEachBody rt now c st) = chartsUpdated st \<and>
     chartsAdded (forEachBody rt now c st) = chartsAdded st + 1)) \<and>
   chartsUpdated (mergeCharts rt prev candidates) + chartsAdded (mergeCharts rt prev candidates)
     = length candidates \<and>
   length (updatedCharts (mergeCharts rt prev candidates))
     = length prev + chartsAdded (mergeCharts rt prev candidates)"
proof -
  have "(chartsUpdated (forEachBody rt now c st) = chartsUpdated st + 1 \<and>
         chartsAdded (forEachBody rt now c st) = chartsAdded st) \<or>
        (chartsUpdated (forEachBody rt now c st) = chartsUpdated st \<and>
         chartsAdded (forEachBody rt now c st) = chartsAdded st + 1)"
    by (simp add: forEachBody_def split: option.splits)
  with forEachCharts_counts
         [of rt candidates "\<lparr>updatedCharts = prev, chartsUpdated = 0, chartsAdded = 0\<rparr>"]
  show ?thesis by (simp add: mergeCharts_def)
qed

section \<open>Which entry a candidate replaces\<close>

lemmas chart_eval =
  mkChart_def chartMatches_def idMatch_def titleMatch_def structureMatch_def chartId_def
  ascii_def asciiToLowerCase_def asciiToLowerChar_def asciiSpace_def replacement_def
  addition_def mergeCharts_def forEachBody_def

lemma forEachBody_match:
  assumes "findIndex (chartMatches rt c) (updatedCharts st) = Some k"
  shows "forEachBody rt now c st =
           st\<lparr>updatedCharts := (updatedCharts st)[k := replacement rt now c],
              chartsUpdated := chartsUpdated st + 1\<rparr>"
  using assms by (simp add: forEachBody_def)

lemma forEachBody_no_match:
  assumes "\<forall>e\<in>set (updatedCharts st). \<not> chartMatches rt c e"
  shows "forEachBody rt now c st =
           st\<lparr>updatedCharts := updatedCharts st @ [addition rt now c],
              chartsAdded := chartsAdded st + 1\<rparr>"
proof -
  from assms have "findIndex (chartMatches rt c) (updatedCharts st) = None"
    by (simp add: findIndex_None)
  then show ?thesis by (simp add: forEachBody_def)
qed

lemma forEachCharts_append:
  "forEachCharts rt (xs @ ys) st = forEachCharts rt ys (forEachCharts rt xs st)"
  by (induction xs arbitrary: st) auto

lemma costsAndRevenue_value:
  "costsAndRevenue = [addition ascii 1 costsBar, addition ascii 2 revenueBar]"
  by (simp add: costsAndRevenue_def chart_eval costsBar_def revenueBar_def)

lemma profitAndSales_value:
  "profitAndSales = [addition ascii 1 profitLine, addition ascii 2 salesLine]"
  by (simp add: profitAndSales_def chart_eval profitLine_def salesLine_def)

text \<open>
  Claim C5 against the code. The collection \<open>costsAndRevenue\<close> holds the charts "Costs" and
  "Revenue", both of type bar, with the ids \<^verbatim>\<open>costs-bar\<close> and \<^verbatim>\<open>revenue-bar\<close>. The candidate
  \<open>revenueCandidate\<close> has the derived id \<^verbatim>\<open>revenue-bar\<close> of the second entry (rule 1); the
  first entry has another id and another title and matches only by rule 3 (same type, same
  number of data points). The merge overwrites the first entry and leaves the id match
  untouched: "Costs" is lost and two entries carry the id \<^verbatim>\<open>revenue-bar\<close>, which is their
  React key. The comments of the code announce the priority of the claim (\<^verbatim>\<open>Match by
  generated ID first\<close>) and unique ids; the three tests are the disjuncts of one \<^verbatim>\<open>findIndex\<close>
  predicate, which gives the first of them no priority over the others across artifacts.
\<close>

theorem id_match_not_preferred:
  "idMatch ascii revenueCandidate (costsAndRevenue ! 1) \<and>
   \<not> idMatch ascii revenueCandidate (costsAndRevenue ! 0) \<and>
   \<not> titleMatch ascii revenueCandidate (costsAndRevenue ! 0) \<and>
   structureMatch revenueCandidate (costsAndRevenue ! 0) \<and>
   updatedCharts (mergeCharts ascii costsAndRevenue [(7, revenueCandidate)])
     = [replacement ascii 7 revenueCandidate, costsAndRevenue ! 1] \<and>
   map title (updatedCharts (mergeCharts ascii costsAndRevenue [(7, revenueCandidate)]))
     = [''Revenue'', ''Revenue''] \<and>
   map id' (updatedCharts (mergeCharts ascii costsAndRevenue [(7, revenueCandidate)]))
     = [Some ''revenue-bar'', Some ''revenue-bar'']"
  by (simp add: costsAndRevenue_value chart_eval costsBar_def revenueBar_def
        revenueCandidate_def)

text \<open>
  Claim C6 against the code. The collection \<open>profitAndSales\<close> holds the line charts "Profit"
  (two data points) and "Sales" (three data points). The candidate \<open>salesCandidate\<close> has the
  title and the type of the second entry, hence its derived id, and two data points. The
  merge overwrites the first entry, which matches by rule 3 only; the entry with the
  candidate's title and type keeps its old data, and two entries carry the title "Sales".
  It is the defect shown for C5: a structural match of an earlier entry wins over the match
  by id and title that the comments of the code put first.
\<close>

theorem same_title_type_not_replaced:
  "title (profitAndSales ! 1) = title salesCandidate \<and>
   type (profitAndSales ! 1) = type salesCandidate \<and>
   idMatch ascii salesCandidate (profitAndSales ! 1) \<and>
   titleMatch ascii salesCandidate (profitAndSales ! 1) \<and>
   \<not> idMatch ascii salesCandidate (profitAndSales ! 0) \<and>
   \<not> titleMatch ascii salesCandidate (profitAndSales ! 0) \<and>
   structureMatch salesCandidate (profitAndSales ! 0) \<and>
   updatedCharts (mergeCharts ascii profitAndSales [(9, salesCandidate)])
     = [replacement ascii 9 salesCandidate, profitAndSales ! 1] \<and>
   data (updatedCharts (mergeCharts ascii profitAndSales [(9, salesCandidate)]) ! 1)
     = [1, 2, 3] \<and>
   data salesCandidate = [5, 6] \<and>
   map title (updatedCharts (mergeCharts ascii profitAndSales [(9, salesCandidate)]))
     = [''Sales'', ''Sales'']"
  by (simp add: profitAndSales_value chart_eval profitLine_def salesLine_def
        salesCandidate_def)

text \<open>
  Claim C7, as stated, fails. In \<open>[growthLine, costsBarThree]\<close> the first artifact has the
  labels of the candidate \<open>growthRateCandidate\<close> and another type; the candidate's title
  differs from both titles and its id from both ids. The second artifact has the
  candidate's type and, like it, three data points: the candidate replaces it by rule 3
  and nothing is appended.
\<close>

theorem different_type_still_replaces:
  "type growthLine \<noteq> type growthRateCandidate \<and>
   labels growthLine = labels growthRateCandidate \<and>
   \<not> titleMatch ascii growthRateCandidate growthLine \<and>
   \<not> titleMatch ascii growthRateCandidate costsBarThree \<and>
   \<not> idMatch ascii growthRateCandidate growthLine \<and>
   \<not> idMatch ascii growthRateCandidate costsBarThree \<and>
   mergeCharts ascii [growthLine, costsBarThree] [(4, growthRateCandidate)] =
     \<lparr>updatedCharts = [growthLine, replacement ascii 4 growthRateCandidate],
      chartsUpdated = 1, chartsAdded = 0\<rparr>"
  by (simp add: chart_eval growthLine_def costsBarThree_def growthRateCandidate_def)

text \<open>
  Claim C7, amended. For every merge, an artifact whose type differs from the candidate's
  is never matched by the structural-similarity rule, whatever the labels are. A merge
  starts from the existing collection and processes the candidates of the batch in order,
  each against the collection as it stands then: the existing artifacts and the artifacts
  already merged from the batch. A candidate
  is appended as a new artifact, the collection growing by one, exactly when no artifact of
  that collection matches it by id, title or structure; this is so in particular when each
  of them differs from the candidate in type, in lower-cased title and in derived id.
\<close>

theorem appended_iff_no_match:
  "mergeCharts rt prev [] = \<lparr>updatedCharts = prev, chartsUpdated = 0, chartsAdded = 0\<rparr> \<and>
   mergeCharts rt prev (before @ [(now, c)])
     = forEachBody rt now c (mergeCharts rt prev before) \<and>
   (type e \<noteq> type c \<longrightarrow> \<not> structureMatch c e) \<and>
   ((length (updatedCharts (forEachBody rt now c st)) = length (updatedCharts st) + 1)
      = (\<forall>e\<in>set (updatedCharts st). \<not> chartMatches rt c e)) \<and>
   ((\<forall>e\<in>set (updatedCharts st). \<not> chartMatches rt c e) \<longrightarrow>
      forEachBody rt now c st =
        st\<lparr>updatedCharts := updatedCharts st @ [addition rt now c],
           chartsAdded := chartsAdded st + 1\<rparr>) \<and>
   ((\<forall>e\<in>set (updatedCharts st).
        type e \<noteq> type c \<and> \<not> titleMatch rt c e \<and> \<not> idMatch rt c e) \<longrightarrow>
      forEachBody rt now c st =
        st\<lparr>updatedCharts := updatedCharts st @ [addition rt now c],
           chartsAdded := chartsAdded st + 1\<rparr>)"
proof -
  have b: "mergeCharts rt prev [] = \<lparr>updatedCharts = prev, chartsUpdated = 0, chartsAdded = 0\<rparr>"
    by (simp add: mergeCharts_def)
  have a: "mergeCharts rt prev (before @ [(now, c)])
     = forEachBody rt now c (mergeCharts rt prev before)"
    by (simp add: mergeCharts_def forEachCharts_append)
  have s: "\<And>e. type e \<noteq> type c \<Longrightarrow> \<not> structureMatch c e"
    by (simp add: structureMatch_def)
  have n: "forEachBody rt now c st =
        st\<lparr>updatedCharts := updatedCharts st @ [addition rt now c],
           chartsAdded := chartsAdded st + 1\<rparr>"
    if "\<forall>e\<in>set (updatedCharts st). \<not> chartMatches rt c e"
    using that by (rule forEachBody_no_match)
  have i: "(length (updatedCharts (forEachBody rt now c st)) = length (updatedCharts st) + 1)
      = (\<forall>e\<in>set (updatedCharts st). \<not> chartMatches rt c e)"
  proof (cases "findIndex (chartMatches rt c) (updatedCharts st)")
    case None
    then have "\<forall>e\<in>set (updatedCharts st). \<not> chartMatches rt c e"
      by (simp add: findIndex_None)
    with n show ?thesis by simp
  next
    case (Some k)
    then have "\<not> (\<forall>e\<in>set (updatedCharts st). \<not> chartMatches rt c e)"
      using findIndex_None [of "chartMatches rt c" "updatedCharts st"] by simp
    with forEachBody_match [OF Some, of now] show ?thesis by simp
  qed
  have t: "\<forall>e\<in>set (updatedCharts st). \<not> chartMatches rt c e"
    if "\<forall>e\<in>set (updatedCharts st).
          type e \<noteq> type c \<and> \<not> titleMatch rt c e \<and> \<not> idMatch rt c e"
    using that s by (simp add: chartMatches_def)
  from b a s i n t show ?thesis by blast
qed

text \<open>
  Witness for C7. The example of the specification: "Growth" (line) and the candidate
  "Growth Rate" (bar) have the same labels, and the candidate is appended. A second
  candidate of the batch, "Margin" (pie), is processed against both and appended too.
\<close>

theorem appended_iff_no_match_witness:
  "type growthLine \<noteq> type growthRateCandidate \<and>
   labels growthLine = labels growthRateCandidate \<and>
   \<not> structureMatch growthRateCandidate growthLine \<and>
   mergeCharts ascii [growthLine] [(4, growthRateCandidate)] =
     \<lparr>updatedCharts = [growthLine, addition ascii 4 growthRateCandidate],
      chartsUpdated = 0, chartsAdded = 1\<rparr> \<and>
   mergeCharts ascii [growthLine] [(4, growthRateCandidate), (5, marginPie)] =
     \<lparr>updatedCharts =
        [growthLine, addition ascii 4 growthRateCandidate, addition ascii 5 marginPie],
      chartsUpdated = 0, chartsAdded = 2\<rparr>"
proof -
  let ?st0 = "\<lparr>updatedCharts = [growthLine], chartsUpdated = 0, chartsAdded = 0\<rparr>"
  let ?st1 = "\<lparr>updatedCharts = [growthLine, addition ascii 4 growthRateCandidate],
               chartsUpdated = 0, chartsAdded = 1\<rparr>"
  have h: "type growthLine \<noteq> type growthRateCandidate"
    and l: "labels growthLine = labels growthRateCandidate"
    by (simp_all add: growthLine_def growthRateCandidate_def mkChart_def)
  have a0: "\<forall>e\<in>set (updatedCharts ?st0). type e \<noteq> type growthRateCandidate \<and>
             \<not> titleMatch ascii growthRateCandidate e \<and> \<not> idMatch ascii growthRateCandidate e"
    by (simp add: chart_eval growthLine_def growthRateCandidate_def)
  have a1: "\<forall>e\<in>set (updatedCharts ?st1). type e \<noteq> type marginPie \<and>
             \<not> titleMatch ascii marginPie e \<and> \<not> idMatch ascii marginPie e"
    by (simp add: chart_eval growthLine_def growthRateCandidate_def marginPie_def)
  from appended_iff_no_match [of ascii "[growthLine]" "[]" 4 growthRateCandidate
         growthLine ?st0] h a0
  have s: "\<not> structureMatch growthRateCandidate growthLine"
    and m1: "mergeCharts ascii [growthLine] [(4, growthRateCandidate)] = ?st1"
    by simp_all
  from appended_iff_no_match [of ascii "[growthLine]" "[(4, growthRateCandidate)]" 5 marginPie
         growthLine ?st1] a1 m1
  have "mergeCharts ascii [growthLine] [(4, growthRateCandidate), (5, marginPie)] =
     \<lparr>updatedCharts =
        [growthLine, addition ascii 4 growthRateCandidate, addition ascii 5 marginPie],
      chartsUpdated = 0, chartsAdded = 2\<rparr>"
    by simp
  with h l s m1 show ?thesis by simp
qed


section \<open>Reachable states of a session\<close>

lemma sessionInv_start: "sessionInv (generateReportStreamWithProgress cb)"
  by (simp add: sessionInv_def generateReportStreamWithProgress_def startTracking_def
        setInterval_def fetchProgress_request_def emit_def Let_def)

lemma sessionInv_startFallbackProgress:
  "sessionInv s \<Longrightarrow> sessionInv (startFallbackProgress s)"
  by (auto simp: sessionInv_def startFallbackProgress_def setInterval_def Let_def
           split: if_splits)

lemma sessionInv_emit: "sessionInv (emit c s) = sessionInv s"
  by (simp add: sessionInv_def emit_def)

lemma sessionInv_pending: "sessionInv (s\<lparr>pending := n\<rparr>) = sessionInv s"
  by (simp add: sessionInv_def)

lemma sessionInv_graceTimer: "sessionInv (s\<lparr>graceTimer := b\<rparr>) = sessionInv s"
  by (simp add: sessionInv_def)

lemma sessionInv_progressHandler: "sessionInv (progressHandler rt cb u s) = sessionInv s"
  by (simp add: progressHandler_def Let_def sessionInv_emit)

lemma sessionInv_not_sim: "sessionInv s \<Longrightarrow> sims s (Suc 0) = None"
  by (cases "sims s (Suc 0)") (auto simp: sessionInv_def)

lemma sessionInv_stopTracking:
  assumes "sessionInv s"
  shows "sessionInv (stopTracking s)"
proof -
  note n = sessionInv_not_sim [OF assms]
  show ?thesis
    using assms n
    by (auto simp: sessionInv_def stopTracking_def clearInterval_def Let_def split: if_splits)
qed

lemma sessionInv_clearFallback:
  assumes "sessionInv s"
  shows "sessionInv (clearFallback s)"
proof -
  note n = sessionInv_not_sim [OF assms]
  show ?thesis
    using assms n
    by (auto simp: sessionInv_def clearFallback_def clearInterval_def
             split: option.splits if_splits)
qed

lemma sessionInv_sims_upd:
  "sessionInv s \<Longrightarrow> sims s h \<noteq> None \<Longrightarrow> sessionInv (s\<lparr>sims := (sims s)(h \<mapsto> c)\<rparr>)"
  by (auto simp: sessionInv_def)

lemma sims_emit [simp]: "sims (emit c s) = sims s"
  by (simp add: emit_def)

lemma sessionInv_fallbackTick:
  assumes "sessionInv s"
  shows "sessionInv (fallbackTick rt cb h u s)"
proof (cases "sims s h")
  case None
  with assms show ?thesis by (simp add: fallbackTick_def)
next
  case (Some c)
  have upd: "sessionInv (t\<lparr>sims := (sims t)(h \<mapsto> c')\<rparr>)"
    if "sessionInv t" "sims t h \<noteq> None" for t c'
    using that by (rule sessionInv_sims_upd)
  show ?thesis
    using assms Some
    by (simp add: fallbackTick_def Let_def sessionInv_emit sessionInv_clearFallback upd)
qed

lemma sessionInv_fetchProgress_response:
  assumes "sessionInv s"
  shows "sessionInv (fetchProgress_response rt sid (progressHandler rt cb) errorHandler r s)"
  using assms
  by (auto simp: fetchProgress_response_def errorHandler_def Let_def
                 sessionInv_startFallbackProgress sessionInv_progressHandler
                 sessionInv_stopTracking
           split: response.splits option.splits sum.splits)

lemma sessionInv_fetchProgress_request:
  "sessionInv (fetchProgress_request s) = sessionInv s"
  by (simp add: fetchProgress_request_def sessionInv_pending)

lemma sessionInv_step:
  assumes "sessionInv s" and "sessionStep rt sid cb e s = Some s'"
  shows "sessionInv s'"
proof (cases e)
  case (Tracker t)
  show ?thesis
  proof (cases t)
    case TimerTick
    with Tracker assms show ?thesis
      by (auto simp: sessionStep_def trackerStep_def sessionInv_fetchProgress_request
               split: option.splits if_splits)
  next
    case (Settled r)
    with Tracker assms(2)
    have "s' = fetchProgress_response rt sid (progressHandler rt cb) errorHandler r
                 (s\<lparr>pending := pending s - 1\<rparr>)"
      by (auto simp: sessionStep_def trackerStep_def split: if_splits)
    with assms(1) show ?thesis
      by (simp add: sessionInv_fetchProgress_response sessionInv_pending)
  next
    case StopTracking
    with Tracker assms(2) show ?thesis by (simp add: sessionStep_def)
  qed
next
  case (FallbackTimer h u)
  with assms show ?thesis
    by (auto simp: sessionStep_def sessionInv_fallbackTick split: if_splits)
next
  case GraceTimeout
  with assms show ?thesis
    by (auto simp: sessionStep_def graceTimeout_def sessionInv_startFallbackProgress
                   sessionInv_graceTimer
             split: if_splits)
qed

lemma sessionInv_run:
  "sessionInv s \<Longrightarrow> sessionRun rt sid cb es s = Some s' \<Longrightarrow> sessionInv s'"
proof (induction es arbitrary: s)
  case Nil
  then show ?case by simp
next
  case (Cons e es)
  then show ?case
    by (auto split: option.splits dest: sessionInv_step)
qed

lemma floor_rat_numeral:
  "\<lfloor>numeral a / numeral b :: rat\<rfloor> = numeral a div numeral b"
  "\<lfloor>1 / numeral b :: rat\<rfloor> = 1 div numeral b"
  using floor_divide_of_int_eq [of "numeral a" "numeral b", where ?'a = rat]
        floor_divide_of_int_eq [of 1 "numeral b", where ?'a = rat]
  by simp_all

lemma length_ANALYSIS_PHASES: "length ANALYSIS_PHASES = 6"
  by (simp add: ANALYSIS_PHASES_def)

section \<open>When the try block of fetchProgress throws\<close>

lemma ANALYSIS_PHASES_nonempty: "ANALYSIS_PHASES \<noteq> []"
  by (simp add: ANALYSIS_PHASES_def)

lemma getCurrentPhaseIndex_eval:
  "getCurrentPhaseIndex rt v =
     (case v of
        None \<Rightarrow> Inr 1
      | Some (JString s) \<Rightarrow>
          Inr (case findIndex (\<lambda>phase. toLowerCase rt (name phase) = toLowerCase rt s)
                      ANALYSIS_PHASES of
                 Some index \<Rightarrow> index + 1
               | None \<Rightarrow> 1)
      | Some _ \<Rightarrow> Inl TypeError)"
proof (cases v)
  case None
  have "findIndex (\<lambda>phase. False) ANALYSIS_PHASES = None"
    by (simp add: findIndex_None)
  with None show ?thesis
    by (simp add: getCurrentPhaseIndex_def optionalToLowerCase_def findIndexThrowing_total)
next
  case (Some x)
  show ?thesis
  proof (cases x)
    case (JString s)
    with Some show ?thesis
      by (simp add: getCurrentPhaseIndex_def optionalToLowerCase_def findIndexThrowing_total
               split: option.splits)
  qed (simp_all add: Some getCurrentPhaseIndex_def optionalToLowerCase_def
         findIndexThrowing_throws ANALYSIS_PHASES_nonempty)
qed

lemma progressUpdate_throws:
  "(\<exists>e. progressUpdate rt sid p = Inl e) =
     (case current_phase p of None \<Rightarrow> False | Some (JString s) \<Rightarrow> False | Some _ \<Rightarrow> True)"
  by (simp add: progressUpdate_def getCurrentPhaseIndex_eval
        split: option.splits jsvalue.splits)

lemma progressUpdate_percentage:
  "progressUpdate rt sid p = Inr u \<Longrightarrow>
     ProgressUpdate.percentage u = mathRound (orNumber (progress_payload.percentage p) 0)"
  by (auto simp: progressUpdate_def split: sum.splits)

lemma fetchProgress_response_error:
  assumes "signalsError r"
  shows "fetchProgress_response rt sid progressCallback errorCallback r w = errorCallback w"
proof (cases r)
  case Rejected
  then show ?thesis by (simp add: fetchProgress_response_def)
next
  case (Resolved body)
  show ?thesis
  proof (cases body)
    case None
    with Resolved show ?thesis by (simp add: fetchProgress_response_def)
  next
    case (Some d)
    with assms Resolved obtain p where p: "response_data.progress d = Some p"
      "status d = Some ''success''"
      "case current_phase p of None \<Rightarrow> False | Some (JString s) \<Rightarrow> False | Some _ \<Rightarrow> True"
      by (auto simp: signalsError_def split: option.splits)
    from p(3) obtain e where "progressUpdate rt sid p = Inl e"
      using progressUpdate_throws [of rt sid p] by auto
    with p(1,2) Resolved Some show ?thesis by (simp add: fetchProgress_response_def)
  qed
qed

lemma fetchProgress_response_ignored:
  assumes "status d \<noteq> Some ''success'' \<or> response_data.progress d = None"
  shows "fetchProgress_response rt sid progressCallback errorCallback (Resolved (Some d)) w = w"
  using assms by (auto simp: fetchProgress_response_def split: option.splits)

lemma fetchProgress_response_update:
  assumes "\<not> signalsError (Resolved (Some d))"
    and "status d = Some ''success''" and "response_data.progress d = Some p"
  shows "\<exists>u. progressUpdate rt sid p = Inr u \<and>
           fetchProgress_response rt sid progressCallback errorCallback (Resolved (Some d)) w =
             (if 100 \<le> ProgressUpdate.percentage u then stopTracking (progressCallback u w)
              else progressCallback u w)"
proof -
  from assms have "\<not> (\<exists>e. progressUpdate rt sid p = Inl e)"
    by (simp add: progressUpdate_throws signalsError_def)
  then obtain u where u: "progressUpdate rt sid p = Inr u"
    by (cases "progressUpdate rt sid p") auto
  with assms(2,3) show ?thesis
    by (simp add: fetchProgress_response_def Let_def)
qed

lemma not_signalsError_cases:
  assumes "\<not> signalsError r"
  obtains d where "r = Resolved (Some d)"
    "status d \<noteq> Some ''success'' \<or> response_data.progress d = None"
  | d p where "r = Resolved (Some d)" "status d = Some ''success''"
    "response_data.progress d = Some p"
proof (cases r)
  case Rejected
  with assms show ?thesis by (simp add: signalsError_def)
next
  case (Resolved body)
  with assms obtain d where d: "r = Resolved (Some d)"
    by (cases body) (auto simp: signalsError_def)
  show ?thesis
  proof (cases "status d = Some ''success'' \<and> response_data.progress d \<noteq> None")
    case True
    with d that(2) show ?thesis by auto
  next
    case False
    with d that(1) show ?thesis by auto
  qed
qed

text \<open>
  The equations that run a tracker or a session on a concrete trace. The names of the
  phases stay folded: no branch depends on them.
\<close>

lemmas tracker_eval = floor_rat_numeral length_ANALYSIS_PHASES getCurrentPhaseIndex_eval
  progressUpdate_def trackerStep_def fetchProgress_response_def fetchProgress_request_def
  stopTracking_def startTracking_def setInterval_def clearInterval_def
  mathRound_def orString_def orNumber_def successResponse_def Let_def

lemmas session_eval = tracker_eval
  sessionStep_def progressHandler_def errorHandler_def startFallbackProgress_def
  graceTimeout_def fallbackTick_def clearFallback_def emit_def
  generateReportStreamWithProgress_def bothCallbacks_def

text \<open>
  Claim C1, as stated, fails. When the first poll request fails, the fallback interval is
  created while the tracker's interval stays live: both timers exist.
\<close>

theorem poller_and_simulator_timers_coexist:
  "firstPollFails \<noteq> None \<and>
   pollerTimerLive (the firstPollFails) \<and>
   simulatorTimers (the firstPollFails) = {2} \<and>
   timers (the firstPollFails) = {1, 2}"
  by (auto simp: firstPollFails_def pollerTimerLive_def simulatorTimers_def session_eval)

text \<open>
  Claim C1, amended. In every state a session reaches, the Poller has at most one periodic
  timer (handle 1), live exactly while the Poller is tracking. Starting the fallback
  simulation creates one new Simulator timer with a fresh handle and clears nothing: the
  Poller's timer and the earlier Simulator timers stay as they are, so a Poller timer and
  Simulator timers can exist at the same instant.
\<close>

theorem fallback_start_clears_no_timer:
  assumes "sessionRun rt sid cb es (generateReportStreamWithProgress cb) = Some s"
  shows "pollerTimerLive s = isTracking s \<and>
         timers s - simulatorTimers s \<subseteq> {1} \<and>
         nextId s \<notin> timers s \<and>
         timers (startFallbackProgress s) = insert (nextId s) (timers s) \<and>
         pollerTimerLive (startFallbackProgress s) = pollerTimerLive s \<and>
         simulatorTimers (startFallbackProgress s) = insert (nextId s) (simulatorTimers s)"
proof -
  from sessionInv_run [OF sessionInv_start assms] have inv: "sessionInv s" .
  have fresh: "nextId s \<notin> timers s"
  proof
    assume "nextId s \<in> timers s"
    with inv have "nextId s = 1 \<or> sims s (nextId s) \<noteq> None"
      unfolding sessionInv_def by blast
    with inv show False unfolding sessionInv_def by auto
  qed
  have live: "pollerTimerLive s = isTracking s"
    using inv by (auto simp: sessionInv_def pollerTimerLive_def)
  have one: "timers s - simulatorTimers s \<subseteq> {1}"
    using inv by (auto simp: sessionInv_def simulatorTimers_def)
  have t: "timers (startFallbackProgress s) = insert (nextId s) (timers s)"
    by (simp add: startFallbackProgress_def setInterval_def)
  have p: "pollerTimerLive (startFallbackProgress s) = pollerTimerLive s"
    using inv
    by (auto simp: startFallbackProgress_def setInterval_def pollerTimerLive_def sessionInv_def
             split: option.splits)
  have m: "simulatorTimers (startFallbackProgress s) = insert (nextId s) (simulatorTimers s)"
    using fresh by (auto simp: startFallbackProgress_def setInterval_def simulatorTimers_def)
  from fresh live one t p m show ?thesis by blast
qed

text \<open>
  Witness for C1: the state reached when the first poll request has failed; the tracker is
  still tracking, its timer is live beside the fallback interval 2, and a further fallback
  start adds the timer 3.
\<close>

theorem fallback_start_clears_no_timer_witness:
  "firstPollFails = Some (the firstPollFails) \<and>
   pollerTimerLive (the firstPollFails) = isTracking (the firstPollFails) \<and>
   timers (the firstPollFails) - simulatorTimers (the firstPollFails) \<subseteq> {1} \<and>
   timers (startFallbackProgress (the firstPollFails)) = {1, 2, 3}"
proof -
  have r: "sessionRun ascii ''s1'' bothCallbacks [Tracker (Settled Rejected)]
             (generateReportStreamWithProgress bothCallbacks) = Some (the firstPollFails)"
    by (simp add: firstPollFails_def session_eval)
  have n: "nextId (the firstPollFails) = 3" "timers (the firstPollFails) = {1, 2}"
    by (auto simp: firstPollFails_def session_eval)
  from fallback_start_clears_no_timer [OF r] r n show ?thesis
    by (auto simp: firstPollFails_def)
qed

text \<open>
  Claim C4, as stated, fails. The first poll delivers an update (30 percent) well inside
  the five seconds, then one poll request fails, once: the fallback simulation is started
  although the timeout has not fired and the Poller has not signalled two errors in a row.
\<close>

theorem single_error_starts_simulation:
  "updateThenOneError \<noteq> None \<and>
   percentages (emitted (the updateThenOneError)) = [0, 30] \<and>
   graceTimer (the updateThenOneError) \<and>
   fallbackInterval (the updateThenOneError) = Some 2 \<and>
   simulatorTimers (the updateThenOneError) = {2}"
  by (auto simp: updateThenOneError_def simulatorTimers_def session_eval)

text \<open>
  Claim C4, amended. The coordinator starts a fallback simulation at every \<^verbatim>\<open>onError\<close> signal
  of the Poller (a settled request that ends in the \<^verbatim>\<open>catch\<close> of \<^verbatim>\<open>fetchProgress\<close>), the first
  one included; apart from the expiry of the timeout armed at the start, no other event
  starts one: an interval tick of the Poller, a response that is relayed or ignored and a
  tick of a Simulator leave \<^verbatim>\<open>fallbackInterval\<close>, the set of Simulator closures and the handle
  counter as they are, and create no timer.
\<close>

theorem simulation_started_by_error_or_timeout:
  assumes "sessionStep rt sid cb e s = Some s'"
  shows "(errorEvent e \<longrightarrow>
            fallbackInterval s' = Some (nextId s) \<and>
            sims s' (nextId s) = Some \<lparr>currentProgress = 0, phaseIndex = 0\<rparr> \<and>
            timers s' = insert (nextId s) (timers s) \<and>
            nextId s' = nextId s + 1) \<and>
         (e \<noteq> GraceTimeout \<and> \<not> errorEvent e \<longrightarrow>
            fallbackInterval s' = fallbackInterval s \<and>
            dom (sims s') = dom (sims s) \<and>
            nextId s' = nextId s \<and>
            timers s' \<subseteq> timers s) \<and>
         errorEvent (Tracker (Settled Rejected)) \<and>
         errorEvent (Tracker (Settled (Resolved None)))"
proof -
  have known: "errorEvent (Tracker (Settled Rejected))"
    "errorEvent (Tracker (Settled (Resolved None)))"
    by (simp_all add: errorEvent_def signalsError_def)
  have main: "(errorEvent e \<longrightarrow>
            fallbackInterval s' = Some (nextId s) \<and>
            sims s' (nextId s) = Some \<lparr>currentProgress = 0, phaseIndex = 0\<rparr> \<and>
            timers s' = insert (nextId s) (timers s) \<and>
            nextId s' = nextId s + 1) \<and>
         (e \<noteq> GraceTimeout \<and> \<not> errorEvent e \<longrightarrow>
            fallbackInterval s' = fallbackInterval s \<and>
            dom (sims s') = dom (sims s) \<and>
            nextId s' = nextId s \<and>
            timers s' \<subseteq> timers s)"
  proof (cases e)
    case (Tracker t)
    show ?thesis
    proof (cases t)
      case TimerTick
      with Tracker assms show ?thesis
        by (auto simp: sessionStep_def trackerStep_def fetchProgress_request_def errorEvent_def
                 split: option.splits if_splits)
    next
      case (Settled r)
      let ?t = "s\<lparr>pending := pending s - 1\<rparr>"
      from Tracker Settled assms
      have s': "s' = fetchProgress_response rt sid (progressHandler rt cb) errorHandler r ?t"
        by (auto simp: sessionStep_def trackerStep_def split: if_splits)
      show ?thesis
      proof (cases "signalsError r")
        case True
        then have "s' = startFallbackProgress ?t"
          unfolding s' by (simp add: fetchProgress_response_error errorHandler_def)
        with True Tracker Settled show ?thesis
          by (simp add: errorEvent_def startFallbackProgress_def setInterval_def)
      next
        case False
        then have n: "\<not> errorEvent e" using Tracker Settled by (simp add: errorEvent_def)
        from False have "fallbackInterval s' = fallbackInterval s \<and>
            dom (sims s') = dom (sims s) \<and> nextId s' = nextId s \<and> timers s' \<subseteq> timers s"
        proof (cases rule: not_signalsError_cases)
          case (1 d)
          then show ?thesis unfolding s' by (simp add: fetchProgress_response_ignored)
        next
          case (2 d p)
          from fetchProgress_response_update
                 [OF False [unfolded 2(1)] 2(2,3), of rt sid "progressHandler rt cb" errorHandler ?t]
          obtain u where "s' = (if 100 \<le> ProgressUpdate.percentage u
                                then stopTracking (progressHandler rt cb u ?t)
                                else progressHandler rt cb u ?t)"
            unfolding s' 2(1) by blast
          then show ?thesis
            by (auto simp: progressHandler_def emit_def stopTracking_def clearInterval_def
                           Let_def
                     split: option.splits if_splits)
        qed
        with n show ?thesis by simp
      qed
    next
      case StopTracking
      with Tracker assms show ?thesis by (simp add: sessionStep_def)
    qed
  next
    case (FallbackTimer h u)
    with assms have s': "s' = fallbackTick rt cb h u s" and h: "sims s h \<noteq> None"
      by (auto simp: sessionStep_def split: if_splits)
    from h show ?thesis unfolding s' FallbackTimer
      by (auto simp: fallbackTick_def clearFallback_def clearInterval_def emit_def Let_def
                     errorEvent_def
               split: option.splits if_splits)
  next
    case GraceTimeout
    then show ?thesis by (simp add: errorEvent_def)
  qed
  with known show ?thesis by blast
qed

text \<open>
  Witness for C4: from the start state, the failure of the first poll request starts the
  fallback interval 2, and an interval tick of the Poller starts nothing.
\<close>

theorem simulation_started_by_error_or_timeout_witness:
  "sessionStep ascii ''s1'' bothCallbacks (Tracker (Settled Rejected))
       (generateReportStreamWithProgress bothCallbacks) = Some (the firstPollFails) \<and>
   fallbackInterval (the firstPollFails) = Some 2 \<and>
   timers (the firstPollFails) = {1, 2} \<and>
   sessionStep ascii ''s1'' bothCallbacks (Tracker TimerTick)
       (generateReportStreamWithProgress bothCallbacks)
     = Some (fetchProgress_request (generateReportStreamWithProgress bothCallbacks)) \<and>
   fallbackInterval (fetchProgress_request (generateReportStreamWithProgress bothCallbacks))
     = None"
proof -
  have a: "sessionStep ascii ''s1'' bothCallbacks (Tracker (Settled Rejected))
       (generateReportStreamWithProgress bothCallbacks) = Some (the firstPollFails)"
    by (simp add: firstPollFails_def session_eval)
  have b: "sessionStep ascii ''s1'' bothCallbacks (Tracker TimerTick)
       (generateReportStreamWithProgress bothCallbacks)
     = Some (fetchProgress_request (generateReportStreamWithProgress bothCallbacks))"
    by (simp add: session_eval)
  have n: "nextId (generateReportStreamWithProgress bothCallbacks) = 2"
    "timers (generateReportStreamWithProgress bothCallbacks) = {1}"
    "fallbackInterval (generateReportStreamWithProgress bothCallbacks) = None"
    by (simp_all add: session_eval)
  from simulation_started_by_error_or_timeout [OF a]
       simulation_started_by_error_or_timeout [OF b] a b n
  show ?thesis by (auto simp: errorEvent_def)
qed



section \<open>One fallback interval\<close>


lemma completions_append: "completions (xs @ ys) = completions xs + completions ys"
  by (induction xs rule: completions.induct) simp_all

lemma emitted_clearFallback [simp]: "emitted (clearFallback s) = emitted s"
  by (simp add: clearFallback_def clearInterval_def split: option.splits)

lemma sims_clearFallback [simp]: "sims (clearFallback s) = sims s"
  by (simp add: clearFallback_def clearInterval_def split: option.splits)


lemma fallbackTick_done:
  assumes "sims s h = Some c" and "6 \<le> phaseIndex c"
  shows "emitted (fallbackTick rt cb h u s) = emitted s"
    and "sims (fallbackTick rt cb h u s) = sims s"
  using assms by (simp_all add: fallbackTick_def length_ANALYSIS_PHASES)

lemma fallbackTick_active:
  assumes "sims s h = Some c" and "phaseIndex c < 6"
  shows "\<exists>X. emitted (fallbackTick rt cb h u s) = emitted s @ X \<and>
           percentages X =
             (if onProgress cb then [min (mathRound (currentProgress (advance u c))) 100]
              else []) \<and>
           completions X =
             (if (6 \<le> phaseIndex (advance u c) \<or> 100 \<le> currentProgress (advance u c)) \<and>
                 onComplete cb
              then 1 else 0) \<and>
           sims (fallbackTick rt cb h u s) h = Some (advance u c)"
  using assms
  by (simp add: fallbackTick_def advance_def length_ANALYSIS_PHASES emit_def Let_def)



lemma advance_bound:
  assumes "0 \<le> u" and "u < 1"
    and "currentProgress c < of_nat (phaseIndex c + 1) * (100 / 6)"
  shows "currentProgress (advance u c) < of_nat (phaseIndex (advance u c) + 1) * (100 / 6)"
  using assms by (auto simp: advance_def length_ANALYSIS_PHASES field_simps)

lemma bound_complete:
  assumes "currentProgress c < of_nat (phaseIndex c + 1) * (100 / 6)"
    and "100 \<le> currentProgress c"
  shows "6 \<le> phaseIndex c"
proof -
  from assms have "(100::rat) < of_nat (phaseIndex c + 1) * (100 / 6)" by simp
  then have "(6::rat) < of_nat (phaseIndex c + 1)" by simp
  then have "6 < phaseIndex c + 1" using of_nat_less_iff [of 6 "phaseIndex c + 1", where ?'a = rat]
    by simp
  then show ?thesis by simp
qed





lemma errorThenBothComplete_summary:
  "map_option (\<lambda>s. (completions (emitted s), count_list (percentages (emitted s)) 100))
     errorThenBothComplete = Some (2, 2)"
  by (simp add: errorThenBothComplete_def session_eval)

text \<open>
  Claim C3, as stated, fails. A failed poll starts the fallback interval 2 and the Poller
  goes on polling; the next poll relays 100 percent and \<^verbatim>\<open>onComplete\<close> is called; the
  Poller stops itself only. Interval 2 runs on and calls \<^verbatim>\<open>onComplete\<close> again at its own
  100 percent: two emissions with percentage 100 and two completions.
\<close>

theorem both_sources_complete:
  "errorThenBothComplete \<noteq> None \<and>
   completions (emitted (the errorThenBothComplete)) = 2 \<and>
   count_list (percentages (emitted (the errorThenBothComplete))) 100 = 2"
proof -
  from errorThenBothComplete_summary
  obtain z where z: "errorThenBothComplete = Some z" "completions (emitted z) = 2"
    "count_list (percentages (emitted z)) 100 = 2"
    by auto
  show ?thesis unfolding z(1) using z(2,3) by simp
qed


section \<open>Completions of a whole session\<close>

text \<open>
  The fallback closures that have gone through all phases, and the bound that ties the
  counter of a closure to its phase.
\<close>

lemma completions_emit:
  "completions (emitted (emit c s)) = completions (emitted s) + completions [c]"
  by (simp add: emit_def completions_append)

lemma finite_finished:
  "finite (dom (sims s)) \<Longrightarrow> finite {h. \<exists>c. sims s h = Some c \<and> 6 \<le> phaseIndex c}"
  by (rule finite_subset [of _ "dom (sims s)"]) auto

lemma count_startFallbackProgress:
  assumes "sessionInv s" and "finite (dom (sims s))"
    and "\<forall>h c. sims s h = Some c \<longrightarrow>
           currentProgress c < of_nat (phaseIndex c + 1) * (100 / 6)"
  shows "finite (dom (sims (startFallbackProgress s)))"
    and "\<forall>h c. sims (startFallbackProgress s) h = Some c \<longrightarrow>
           currentProgress c < of_nat (phaseIndex c + 1) * (100 / 6)"
    and "{h. \<exists>c. sims (startFallbackProgress s) h = Some c \<and> 6 \<le> phaseIndex c}
           = {h. \<exists>c. sims s h = Some c \<and> 6 \<le> phaseIndex c}"
    and "emitted (startFallbackProgress s) = emitted s"
proof -
  have fresh: "sims s (nextId s) = None"
    using assms(1) by (cases "sims s (nextId s)") (auto simp: sessionInv_def)
  show "finite (dom (sims (startFallbackProgress s)))"
    using assms(2) by (simp add: startFallbackProgress_def setInterval_def)
  show "\<forall>h c. sims (startFallbackProgress s) h = Some c \<longrightarrow>
           currentProgress c < of_nat (phaseIndex c + 1) * (100 / 6)"
    using assms(3) by (auto simp: startFallbackProgress_def setInterval_def)
  show "{h. \<exists>c. sims (startFallbackProgress s) h = Some c \<and> 6 \<le> phaseIndex c}
           = {h. \<exists>c. sims s h = Some c \<and> 6 \<le> phaseIndex c}"
    using fresh by (auto simp: startFallbackProgress_def setInterval_def)
  show "emitted (startFallbackProgress s) = emitted s"
    by (simp add: startFallbackProgress_def setInterval_def)
qed

lemma sims_fallbackTick_other:
  "h' \<noteq> h \<Longrightarrow> sims (fallbackTick rt cb h u s) h' = sims s h'"
  by (simp add: fallbackTick_def emit_def Let_def split: option.splits)

lemma dom_sims_fallbackTick:
  "sims s h \<noteq> None \<Longrightarrow> dom (sims (fallbackTick rt cb h u s)) = dom (sims s)"
  by (auto simp: fallbackTick_def emit_def Let_def split: option.splits if_splits)

lemma count_fallbackTick:
  assumes "sims s h = Some c" and "0 \<le> u" and "u < 1"
    and fin: "finite (dom (sims s))"
    and bnd: "\<forall>h c. sims s h = Some c \<longrightarrow>
           currentProgress c < of_nat (phaseIndex c + 1) * (100 / 6)"
    and cnt: "completions (emitted s)
                \<le> n + card {h. \<exists>c. sims s h = Some c \<and> 6 \<le> phaseIndex c}"
  shows "(\<forall>k c. sims (fallbackTick rt cb h u s) k = Some c \<longrightarrow>
            currentProgress c < of_nat (phaseIndex c + 1) * (100 / 6)) \<and>
         completions (emitted (fallbackTick rt cb h u s))
           \<le> n + card {k. \<exists>c. sims (fallbackTick rt cb h u s) k = Some c \<and> 6 \<le> phaseIndex c}"
proof (cases "phaseIndex c < 6")
  case False
  with assms(1) have "emitted (fallbackTick rt cb h u s) = emitted s"
    "sims (fallbackTick rt cb h u s) = sims s"
    by (simp_all add: fallbackTick_done)
  with bnd cnt show ?thesis by simp
next
  case True
  let ?s = "fallbackTick rt cb h u s" and ?c = "advance u c"
  let ?D = "{k. \<exists>c. sims s k = Some c \<and> 6 \<le> phaseIndex c}"
  let ?D' = "{k. \<exists>c. sims ?s k = Some c \<and> 6 \<le> phaseIndex c}"
  from fallbackTick_active [OF assms(1) True, of rt cb u]
  obtain X where X: "emitted ?s = emitted s @ X"
    "completions X =
       (if (6 \<le> phaseIndex ?c \<or> 100 \<le> currentProgress ?c) \<and> onComplete cb then 1 else 0)"
    "sims ?s h = Some ?c"
    by blast
  from bnd assms(1) have "currentProgress c < of_nat (phaseIndex c + 1) * (100 / 6)"
    by blast
  note b = advance_bound [OF assms(2,3) this]
  have other: "sims ?s k = sims s k" if "k \<noteq> h" for k
    using that by (rule sims_fallbackTick_other)
  have bnd': "\<forall>k c. sims ?s k = Some c \<longrightarrow>
            currentProgress c < of_nat (phaseIndex c + 1) * (100 / 6)"
  proof (intro allI impI)
    fix k c'
    assume k: "sims ?s k = Some c'"
    show "currentProgress c' < of_nat (phaseIndex c' + 1) * (100 / 6)"
    proof (cases "k = h")
      case True
      with k X(3) b show ?thesis by simp
    next
      case False
      with k other bnd show ?thesis by simp
    qed
  qed
  have finD: "finite ?D" using fin by (rule finite_finished)
  have hD: "h \<notin> ?D" using assms(1) True by simp
  show ?thesis
  proof (cases "completions X = 0")
    case True
    have "?D \<subseteq> ?D'"
    proof
      fix k assume "k \<in> ?D"
      with hD have "k \<noteq> h" by blast
      with \<open>k \<in> ?D\<close> other show "k \<in> ?D'" by simp
    qed
    moreover have "finite ?D'"
      using fin assms(1) dom_sims_fallbackTick [of s h rt cb u]
      by (intro finite_finished) simp
    ultimately have "card ?D \<le> card ?D'" by (rule card_mono [rotated])
    with cnt True X(1) bnd' show ?thesis by (simp add: completions_append)
  next
    case False
    with X(2) have one: "completions X = 1"
      and "6 \<le> phaseIndex ?c \<or> 100 \<le> currentProgress ?c"
      by (simp_all split: if_splits)
    with bound_complete [OF b] have fin6: "6 \<le> phaseIndex ?c" by blast
    have "?D' = insert h ?D"
    proof (intro set_eqI iffI)
      fix k assume "k \<in> ?D'"
      then show "k \<in> insert h ?D" using other by (cases "k = h") auto
    next
      fix k assume "k \<in> insert h ?D"
      then show "k \<in> ?D'"
      proof (cases "k = h")
        case True
        with X(3) fin6 show ?thesis by simp
      next
        case False
        with \<open>k \<in> insert h ?D\<close> other show ?thesis by simp
      qed
    qed
    with finD hD have "card ?D' = card ?D + 1" by simp
    with cnt one X(1) bnd' show ?thesis by (simp add: completions_append)
  qed
qed

text \<open>The facts that one step of a session keeps, with the count of the Poller's completions.\<close>

lemma count_step:
  assumes step: "sessionStep rt sid cb e s = Some s'"
    and inv: "sessionInv s"
    and fin: "finite (dom (sims s))"
    and bnd: "\<forall>h c. sims s h = Some c \<longrightarrow>
           currentProgress c < of_nat (phaseIndex c + 1) * (100 / 6)"
    and cnt: "completions (emitted s)
                \<le> n + card {h. \<exists>c. sims s h = Some c \<and> 6 \<le> phaseIndex c}"
  shows "finite (dom (sims s')) \<and>
         (\<forall>h c. sims s' h = Some c \<longrightarrow>
            currentProgress c < of_nat (phaseIndex c + 1) * (100 / 6)) \<and>
         completions (emitted s')
           \<le> (n + pollerCompletions [e])
               + card {h. \<exists>c. sims s' h = Some c \<and> 6 \<le> phaseIndex c}"
proof (cases e)
  case GraceTimeout
  let ?t = "s\<lparr>graceTimer := False\<rparr>"
  from step GraceTimeout have s': "s' = startFallbackProgress ?t"
    by (auto simp: sessionStep_def graceTimeout_def split: if_splits)
  have "sessionInv ?t" using inv by (simp add: sessionInv_graceTimer)
  from count_startFallbackProgress [OF this] fin bnd cnt
  show ?thesis unfolding s' GraceTimeout by simp
next
  case (FallbackTimer h u)
  from step FallbackTimer have s': "s' = fallbackTick rt cb h u s"
    and en: "sims s h \<noteq> None" "0 \<le> u" "u < 1"
    by (auto simp: sessionStep_def split: if_splits)
  from en(1) obtain c where c: "sims s h = Some c" by auto
  from count_fallbackTick [OF c en(2,3) fin bnd cnt, of rt cb]
       dom_sims_fallbackTick [OF en(1), of rt cb u] fin
  show ?thesis unfolding s' FallbackTimer by simp
next
  case (Tracker t)
  show ?thesis
  proof (cases t)
    case StopTracking
    with Tracker step show ?thesis by (simp add: sessionStep_def)
  next
    case TimerTick
    with Tracker step have "sims s' = sims s" "emitted s' = emitted s"
      by (auto simp: sessionStep_def trackerStep_def fetchProgress_request_def
               split: option.splits if_splits)
    with fin bnd cnt Tracker TimerTick show ?thesis by simp
  next
    case (Settled r)
    let ?t = "s\<lparr>pending := pending s - 1\<rparr>"
    from Tracker Settled step
    have s': "s' = fetchProgress_response rt sid (progressHandler rt cb) errorHandler r ?t"
      by (auto simp: sessionStep_def trackerStep_def split: if_splits)
    have invt: "sessionInv ?t" using inv by (simp add: sessionInv_pending)
    show ?thesis
    proof (cases "signalsError r")
      case True
      then have "s' = startFallbackProgress ?t"
        unfolding s' by (simp add: fetchProgress_response_error errorHandler_def)
      moreover from True have "\<not> relaysCompletion r"
        by (auto simp: relaysCompletion_def split: response.splits option.splits)
      ultimately show ?thesis
        using count_startFallbackProgress [OF invt] fin bnd cnt Tracker Settled by simp
    next
      case False
      have "sims s' = sims s \<and>
            completions (emitted s')
              = completions (emitted s) +
                  (if relaysCompletion r \<and> onComplete cb then 1 else 0)"
        using False
      proof (cases rule: not_signalsError_cases)
        case (1 d)
        then have "s' = ?t" unfolding s' by (simp add: fetchProgress_response_ignored)
        moreover from 1 have "\<not> relaysCompletion r"
          by (auto simp: relaysCompletion_def split: option.splits)
        ultimately show ?thesis by simp
      next
        case (2 d p)
        from fetchProgress_response_update
               [OF False [unfolded 2(1)] 2(2,3), of rt sid "progressHandler rt cb" errorHandler ?t]
        obtain u where u: "progressUpdate rt sid p = Inr u"
          and eq: "s' = (if 100 \<le> ProgressUpdate.percentage u
                         then stopTracking (progressHandler rt cb u ?t)
                         else progressHandler rt cb u ?t)"
          unfolding s' 2(1) by blast
        have "relaysCompletion r = (100 \<le> ProgressUpdate.percentage u)"
          using False 2 progressUpdate_percentage [OF u]
          by (simp add: relaysCompletion_def)
        then show ?thesis
          unfolding eq
          by (simp add: progressHandler_def emit_def stopTracking_def clearInterval_def
                   Let_def completions_append
                 split: option.splits)
      qed
      then have m: "sims s' = sims s"
        and "completions (emitted s')
              = completions (emitted s) +
                  (if relaysCompletion r \<and> onComplete cb then 1 else 0)"
        by simp_all
      with cnt have "completions (emitted s')
                       \<le> (n + (if relaysCompletion r then 1 else 0))
                          + card {h. \<exists>c. sims s h = Some c \<and> 6 \<le> phaseIndex c}"
        by simp
      with m fin bnd Tracker Settled show ?thesis by simp
    qed
  qed
qed

lemma pollerCompletions_Cons:
  "pollerCompletions (e # es) = pollerCompletions [e] + pollerCompletions es"
  by (cases "(e # es)" rule: pollerCompletions.cases) simp_all

lemma count_run:
  assumes "sessionRun rt sid cb es s = Some s'"
    and "sessionInv s"
    and "finite (dom (sims s))"
    and "\<forall>h c. sims s h = Some c \<longrightarrow>
           currentProgress c < of_nat (phaseIndex c + 1) * (100 / 6)"
    and "completions (emitted s)
                \<le> n + card {h. \<exists>c. sims s h = Some c \<and> 6 \<le> phaseIndex c}"
  shows "finite (dom (sims s')) \<and>
         completions (emitted s')
           \<le> (n + pollerCompletions es)
               + card {h. \<exists>c. sims s' h = Some c \<and> 6 \<le> phaseIndex c}"
  using assms
proof (induction es arbitrary: s n)
  case Nil
  then show ?case by simp
next
  case (Cons e es)
  from Cons.prems(1) obtain t where t: "sessionStep rt sid cb e s = Some t"
    and run: "sessionRun rt sid cb es t = Some s'"
    by (auto split: option.splits)
  from count_step [OF t Cons.prems(2-5)]
  have c: "finite (dom (sims t))"
    "\<forall>h c. sims t h = Some c \<longrightarrow>
           currentProgress c < of_nat (phaseIndex c + 1) * (100 / 6)"
    "completions (emitted t)
           \<le> (n + pollerCompletions [e])
               + card {h. \<exists>c. sims t h = Some c \<and> 6 \<le> phaseIndex c}"
    by simp_all
  from Cons.IH [OF run sessionInv_step [OF Cons.prems(2) t] c]
  show ?case using pollerCompletions_Cons [of e es] by simp
qed

lemma count_session:
  assumes "sessionRun rt sid cb es (generateReportStreamWithProgress cb) = Some s"
  shows "finite (dom (sims s)) \<and>
         completions (emitted s) \<le> pollerCompletions es + card (dom (sims s))"
proof -
  let ?g = "generateReportStreamWithProgress cb"
  have e: "completions (emitted ?g) = 0" "sims ?g = Map.empty"
    by (simp_all add: generateReportStreamWithProgress_def startTracking_def setInterval_def
          fetchProgress_request_def emit_def Let_def)
  from count_run [OF assms sessionInv_start, of 0] e
  have f: "finite (dom (sims s))"
    and c: "completions (emitted s)
              \<le> pollerCompletions es + card {h. \<exists>c. sims s h = Some c \<and> 6 \<le> phaseIndex c}"
    by simp_all
  have "card {h. \<exists>c. sims s h = Some c \<and> 6 \<le> phaseIndex c} \<le> card (dom (sims s))"
    using f by (intro card_mono) auto
  with f c show ?thesis by simp
qed

text \<open>
  Claim C3, amended. In every session the number of \<^verbatim>\<open>onComplete\<close> calls is at most the
  number of fallback simulations started plus the number of Poller updates relayed with a
  percentage of 100 or more. Neither source stops the other: a tick of a fallback interval
  leaves the Poller's timer as it is, and \<^verbatim>\<open>stopTracking\<close> leaves the fallback intervals as
  they are.
\<close>

theorem completions_bounded_by_sources:
  assumes "sessionRun rt sid cb es (generateReportStreamWithProgress cb) = Some s"
  shows "completions (emitted s) \<le> pollerCompletions es + card (dom (sims s)) \<and>
         pollerTimerLive (fallbackTick rt cb h u s) = pollerTimerLive s \<and>
         simulatorTimers (stopTracking s) = simulatorTimers s"
proof -
  from sessionInv_run [OF sessionInv_start assms] have inv: "sessionInv s" .
  from count_session [OF assms]
  have a: "completions (emitted s) \<le> pollerCompletions es + card (dom (sims s))" by simp
  have f: "fallbackInterval s \<noteq> Some 1"
    using inv sessionInv_not_sim [OF inv] by (auto simp: sessionInv_def)
  have t: "(1 \<in> timers (fallbackTick rt cb h u s)) = (1 \<in> timers s)"
    using f
    by (auto simp: fallbackTick_def clearFallback_def clearInterval_def emit_def Let_def
             split: option.splits if_splits)
  have i: "intervalId (fallbackTick rt cb h u s) = intervalId s"
    by (simp add: fallbackTick_def clearFallback_def clearInterval_def emit_def Let_def
             split: option.splits)
  have c: "pollerTimerLive (fallbackTick rt cb h u s) = pollerTimerLive s"
    using inv t i by (auto simp: pollerTimerLive_def sessionInv_def split: option.splits)
  have d: "simulatorTimers (stopTracking s) = simulatorTimers s"
    using inv sessionInv_not_sim [OF inv]
    by (auto simp: simulatorTimers_def stopTracking_def clearInterval_def sessionInv_def Let_def
             split: option.splits if_splits)
  from a c d show ?thesis by blast
qed

text \<open>
  Witness for C3: the first poll fails and starts one fallback simulation, the next poll
  relays 100 percent: one \<^verbatim>\<open>onComplete\<close> call, for one relayed completion and one simulation
  started, whose timer outlives the Poller's.
\<close>

theorem completions_bounded_by_sources_witness:
  "errorThenPollerCompletes = Some (the errorThenPollerCompletes) \<and>
   completions (emitted (the errorThenPollerCompletes)) = 1 \<and>
   pollerCompletions
     [Tracker (Settled Rejected), Tracker TimerTick, Tracker (Settled (successResponse 100))]
     = 1 \<and>
   dom (sims (the errorThenPollerCompletes)) = {2} \<and>
   completions (emitted (the errorThenPollerCompletes))
     \<le> pollerCompletions
         [Tracker (Settled Rejected), Tracker TimerTick,
          Tracker (Settled (successResponse 100))]
       + card (dom (sims (the errorThenPollerCompletes))) \<and>
   simulatorTimers (the errorThenPollerCompletes) = {2} \<and>
   \<not> pollerTimerLive (the errorThenPollerCompletes)"
proof -
  have r: "sessionRun ascii ''s1'' bothCallbacks
             [Tracker (Settled Rejected), Tracker TimerTick,
              Tracker (Settled (successResponse 100))]
             (generateReportStreamWithProgress bothCallbacks)
           = Some (the errorThenPollerCompletes)"
    by (simp add: errorThenPollerCompletes_def session_eval)
  have v: "completions (emitted (the errorThenPollerCompletes)) = 1"
    "dom (sims (the errorThenPollerCompletes)) = {2}"
    "simulatorTimers (the errorThenPollerCompletes) = {2}"
    "\<not> pollerTimerLive (the errorThenPollerCompletes)"
    by (auto simp: errorThenPollerCompletes_def simulatorTimers_def pollerTimerLive_def
          session_eval)
  have p: "pollerCompletions
     [Tracker (Settled Rejected), Tracker TimerTick, Tracker (Settled (successResponse 100))]
     = 1"
    by (simp add: relaysCompletion_def signalsError_def successResponse_def mathRound_def
          orNumber_def)
  from completions_bounded_by_sources [OF r] r v p show ?thesis
    by (simp add: errorThenPollerCompletes_def)
qed


section \<open>The tracker on its own\<close>

lemma marketResearch_index:
  "findIndex (\<lambda>phase. toLowerCase ascii (name phase) = toLowerCase ascii ''Market Research'')
     ANALYSIS_PHASES = Some 2"
  by (simp add: ANALYSIS_PHASES_def ascii_def asciiToLowerCase_def asciiToLowerChar_def)

text \<open>
  Claim C8, as stated, fails. A response without a success status, and a response with a
  success status and no progress object, are skipped by the guard of \<^verbatim>\<open>fetchProgress\<close>:
  neither callback is called and the tracker goes on polling.
\<close>

theorem malformed_response_ignored:
  "malformedAnswers \<noteq> None \<and>
   calls (the malformedAnswers) = [] \<and>
   isTracking (the malformedAnswers)"
  by (simp add: malformedAnswers_def errorStatusResponse_def noProgressResponse_def
        newProbe_def recordProgress_def recordError_def tracker_eval)

text \<open>
  Claim C8, amended. The Poller invokes \<^verbatim>\<open>onError\<close>, and nothing else, in the cases in which
  the \<^verbatim>\<open>try\<close> block throws: the request is rejected, the response body is null, or the body
  has the status \<^verbatim>\<open>'success'\<close> and a progress object whose \<^verbatim>\<open>current_phase\<close> is present and
  not a string (\<^verbatim>\<open>phaseName?.toLowerCase()\<close> throws a TypeError inside the \<^verbatim>\<open>try\<close>). A response
  body without the status \<^verbatim>\<open>'success'\<close> or without a progress object is ignored: no callback
  is invoked and the tracker is unchanged. A response with the status \<^verbatim>\<open>'success'\<close> and a
  progress object whose \<^verbatim>\<open>current_phase\<close> is absent or a string is delivered through
  \<^verbatim>\<open>onUpdate\<close>, missing fields taking their defaults. This holds for every implementation of
  \<^verbatim>\<open>toLowerCase\<close>.
\<close>

theorem error_callback_on_throw_only:
  "((r = Rejected \<or> r = Resolved None) \<longrightarrow>
      fetchProgress_response rt sid recordProgress recordError r w
        = w\<lparr>calls := calls w @ [ErrorCallback]\<rparr>) \<and>
   (status d = Some ''success'' \<and> response_data.progress d = Some p \<and>
    current_phase p = Some v \<and> (\<forall>s. v \<noteq> JString s) \<longrightarrow>
      fetchProgress_response rt sid recordProgress recordError (Resolved (Some d)) w
        = w\<lparr>calls := calls w @ [ErrorCallback]\<rparr>) \<and>
   ((status d \<noteq> Some ''success'' \<or> response_data.progress d = None) \<longrightarrow>
      fetchProgress_response rt sid recordProgress recordError (Resolved (Some d)) w = w) \<and>
   (status d = Some ''success'' \<and> response_data.progress d = Some p \<and>
    (current_phase p = None \<or> (\<exists>s. current_phase p = Some (JString s))) \<longrightarrow>
      (\<exists>u. progressUpdate rt sid p = Inr u \<and>
           calls (fetchProgress_response rt sid recordProgress recordError
                    (Resolved (Some d)) w)
             = calls w @ [ProgressCallback u]))"
proof (intro conjI impI)
  assume "r = Rejected \<or> r = Resolved None"
  then show "fetchProgress_response rt sid recordProgress recordError r w
               = w\<lparr>calls := calls w @ [ErrorCallback]\<rparr>"
    by (auto simp: fetchProgress_response_def recordError_def)
next
  assume a: "status d = Some ''success'' \<and> response_data.progress d = Some p \<and>
             current_phase p = Some v \<and> (\<forall>s. v \<noteq> JString s)"
  then have e: "signalsError (Resolved (Some d))"
    by (cases v) (auto simp: signalsError_def)
  show "fetchProgress_response rt sid recordProgress recordError (Resolved (Some d)) w
          = w\<lparr>calls := calls w @ [ErrorCallback]\<rparr>"
    by (simp add: fetchProgress_response_error [OF e] recordError_def)
next
  assume "status d \<noteq> Some ''success'' \<or> response_data.progress d = None"
  then show "fetchProgress_response rt sid recordProgress recordError (Resolved (Some d)) w = w"
    by (rule fetchProgress_response_ignored)
next
  assume a: "status d = Some ''success'' \<and> response_data.progress d = Some p \<and>
             (current_phase p = None \<or> (\<exists>s. current_phase p = Some (JString s)))"
  then have n: "\<not> signalsError (Resolved (Some d))"
    by (auto simp: signalsError_def)
  from a have s: "status d = Some ''success''" and p: "response_data.progress d = Some p"
    by simp_all
  from fetchProgress_response_update [OF n s p, of rt sid recordProgress recordError w]
  obtain u where u: "progressUpdate rt sid p = Inr u"
    and eq: "fetchProgress_response rt sid recordProgress recordError (Resolved (Some d)) w =
               (if 100 \<le> ProgressUpdate.percentage u then stopTracking (recordProgress u w)
                else recordProgress u w)"
    by blast
  have "calls (fetchProgress_response rt sid recordProgress recordError (Resolved (Some d)) w)
          = calls w @ [ProgressCallback u]"
    unfolding eq
    by (simp add: recordProgress_def stopTracking_def clearInterval_def Let_def
          split: option.splits)
  with u show "\<exists>u. progressUpdate rt sid p = Inr u \<and>
           calls (fetchProgress_response rt sid recordProgress recordError
                    (Resolved (Some d)) w)
             = calls w @ [ProgressCallback u]"
    by blast
qed

text \<open>
  Witness for C8: on a fresh tracker a rejected request calls \<^verbatim>\<open>onError\<close>, and so does the
  response whose \<^verbatim>\<open>current_phase\<close> is the number 3; the response with the status \<^verbatim>\<open>'error'\<close>
  changes nothing.
\<close>

theorem error_callback_on_throw_only_witness:
  "calls (fetchProgress_response ascii ''s1'' recordProgress recordError Rejected
            (startTracking newProbe)) = [ErrorCallback] \<and>
   status numericPhaseResponse = Some ''success'' \<and>
   map_option current_phase (response_data.progress numericPhaseResponse)
     = Some (Some (JNumber 3)) \<and>
   calls (fetchProgress_response ascii ''s1'' recordProgress recordError
            (Resolved (Some numericPhaseResponse)) (startTracking newProbe))
     = [ErrorCallback] \<and>
   status errorStatusResponse \<noteq> Some ''success'' \<and>
   fetchProgress_response ascii ''s1'' recordProgress recordError
       (Resolved (Some errorStatusResponse)) (startTracking newProbe)
     = startTracking newProbe"
proof -
  let ?p = "\<lparr>current_phase = Some (JNumber 3), percentage = Some 42,
              current_task = None, estimated_time_remaining = None,
              elapsed_time = None\<rparr>"
  have c: "calls (startTracking newProbe) = []"
    by (simp add: newProbe_def tracker_eval)
  have n: "status errorStatusResponse \<noteq> Some ''success''"
    by (simp add: errorStatusResponse_def)
  have m: "status numericPhaseResponse = Some ''success''"
    "response_data.progress numericPhaseResponse = Some ?p"
    by (simp_all add: numericPhaseResponse_def)
  from error_callback_on_throw_only
         [of Rejected ascii "''s1''" "startTracking newProbe" numericPhaseResponse ?p
             "JNumber 3"]
       error_callback_on_throw_only
         [of Rejected ascii "''s1''" "startTracking newProbe" errorStatusResponse]
       c n m
  show ?thesis by simp
qed

text \<open>
  Claim C9 against the code. A tracker is started and stopped at once: \<^verbatim>\<open>isTracking\<close> is
  false, the interval is cleared and no callback has run. The request sent by
  \<^verbatim>\<open>startTracking\<close> is still in flight; when it resolves, the progress callback is called
  with the update built from the answer, and when it is rejected, the error callback is
  called: \<^verbatim>\<open>isTracking\<close> is read only before the request is sent.
\<close>

theorem callback_after_stop:
  "isTracking (stopTracking (startTracking newProbe)) = False \<and>
   timers (stopTracking (startTracking newProbe)) = {} \<and>
   calls (stopTracking (startTracking newProbe)) = [] \<and>
   stoppedThenAnswered \<noteq> None \<and>
   progressUpdate ascii ''s1''
       \<lparr>current_phase = Some (JString ''Market Research''), percentage = Some 42,
        current_task = Some ''Analyzing'', estimated_time_remaining = None,
        elapsed_time = None\<rparr>
     = Inr \<lparr>sessionId = ''s1'', phase = ''Market Research'', percentage = 42,
            currentTask = ''Analyzing'', estimatedTimeRemaining = 0, elapsedTime = 0,
            totalPhases = 6, currentPhase = 3\<rparr> \<and>
   calls (the stoppedThenAnswered)
     = [ProgressCallback
          \<lparr>sessionId = ''s1'', phase = ''Market Research'', percentage = 42,
           currentTask = ''Analyzing'', estimatedTimeRemaining = 0, elapsedTime = 0,
           totalPhases = 6, currentPhase = 3\<rparr>] \<and>
   stoppedThenFailed \<noteq> None \<and>
   calls (the stoppedThenFailed) = [ErrorCallback]"
  by (simp add: stoppedThenAnswered_def stoppedThenFailed_def newProbe_def
        recordProgress_def recordError_def marketResearch_index tracker_eval)

end
